theory Spec2Isabelle
  imports Main
begin

section \<open>Data model of distshell.go\<close>

text \<open>
  Go strings and byte slices are both sequences of bytes; both are modelled as
  \<^typ>\<open>string\<close> (a list of 8-bit characters). A Go \<open>error\<close> value is either \<open>nil\<close>
  or carries a text; it is modelled as \<^typ>\<open>string option\<close>, the text being what
  \<open>err.Error()\<close> returns.
\<close>

type_synonym bytes = string

record Host =
  Name :: string
  Stdout :: bytes
  cmd :: string
  args :: "string list"
  CmdError :: "string option"

record DistShell =
  HOSTS :: "Host list"
  monitor :: bool
  maxBatch :: int

text \<open>
  The operating environment of one dispatch call. \<open>lookPath\<close> is \<open>exec.LookPath\<close>.
  \<open>run i prog argv\<close> is what running the external program \<open>prog\<close> with arguments
  \<open>argv\<close> gives to the work item of host number \<open>i\<close>: the captured output and the
  error (\<open>exec.Command(...).CombinedOutput()\<close> in \<open>runCMD\<close>, \<open>kitutils.RunCMD\<close>, which
  is not part of the repository, in \<open>GetFile\<close>). The result of an external program is
  not a function of its arguments, hence the index. \<open>chanLimit\<close> is the largest size
  \<open>n\<close> for which \<open>make(chan string, n)\<close> returns when the call is made: the buffer is
  allocated at once, so it depends on the memory the process can get.
\<close>

record env =
  lookPath :: "string \<Rightarrow> string option"
  run :: "nat \<Rightarrow> string \<Rightarrow> string list \<Rightarrow> bytes \<times> string option"
  chanLimit :: int

text \<open>
  The ways a call can end without returning: \<open>os.Exit(1)\<close> after a failed lookup of
  \<open>ssh\<close> or \<open>scp\<close>, a \<open>make(chan string, n)\<close> that does not return (the run-time panic
  "makechan: size out of range" for a negative or too large \<open>n\<close>, or the process dying
  out of memory), and a receive on the status channel that no message will ever
  satisfy.
\<close>

datatype fatal = ExitNoSSH | ExitNoSCP | MakeChanFailed | Blocked

subsection \<open>Construction and configuration\<close>

definition buildHost :: "string list \<Rightarrow> Host list" where
  "buildHost hList =
     map (\<lambda>n. \<lparr>Name = n, Stdout = [], cmd = [], args = [], CmdError = None\<rparr>) hList"

definition New :: "string list \<Rightarrow> DistShell" where
  "New hList = \<lparr>HOSTS = buildHost hList, monitor = True, maxBatch = 50\<rparr>"

definition EnableMonitoring :: "DistShell \<Rightarrow> DistShell" where
  "EnableMonitoring ds = ds\<lparr>monitor := True\<rparr>"

definition DisableMonitoring :: "DistShell \<Rightarrow> DistShell" where
  "DisableMonitoring ds = ds\<lparr>monitor := False\<rparr>"

definition SetMaxBatch :: "DistShell \<Rightarrow> int \<Rightarrow> DistShell" where
  "SetMaxBatch ds n = ds\<lparr>maxBatch := n\<rparr>"

definition SetupDistShell :: "DistShell \<Rightarrow> string list \<Rightarrow> DistShell" where
  "SetupDistShell ds hList = SetMaxBatch (EnableMonitoring (ds\<lparr>HOSTS := buildHost hList\<rparr>)) 50"

subsection \<open>Assignment and output accessors\<close>

text \<open>
  \<open>AddCommand\<close> walks the host list from the front and returns at the first record
  whose name matches. The loop is the recursion \<open>AddCommand_hosts\<close>; the boolean is
  the function's result.
\<close>

fun AddCommand_hosts :: "Host list \<Rightarrow> string \<Rightarrow> string \<Rightarrow> string list \<Rightarrow> Host list \<times> bool" where
  "AddCommand_hosts [] h command as = ([], False)"
| "AddCommand_hosts (x # xs) h command as =
     (if Name x = h then (x\<lparr>cmd := command, args := as\<rparr> # xs, True)
      else (x # fst (AddCommand_hosts xs h command as), snd (AddCommand_hosts xs h command as)))"

definition AddCommand :: "DistShell \<Rightarrow> string \<Rightarrow> string \<Rightarrow> string list \<Rightarrow> DistShell \<times> bool" where
  "AddCommand ds h command as =
     (ds\<lparr>HOSTS := fst (AddCommand_hosts (HOSTS ds) h command as)\<rparr>,
      snd (AddCommand_hosts (HOSTS ds) h command as))"

definition noOutput :: bytes where
  "noOutput = ''no output''"

fun GetHostStdout_hosts :: "Host list \<Rightarrow> string \<Rightarrow> bytes" where
  "GetHostStdout_hosts [] h = noOutput"
| "GetHostStdout_hosts (x # xs) h = (if Name x = h then Stdout x else GetHostStdout_hosts xs h)"

definition GetHostStdout :: "DistShell \<Rightarrow> string \<Rightarrow> bytes" where
  "GetHostStdout ds h = GetHostStdout_hosts (HOSTS ds) h"

text \<open>The two printing accessors return the text they write to standard output.\<close>

definition DumpHostStdout :: "DistShell \<Rightarrow> string \<Rightarrow> string" where
  "DumpHostStdout ds h =
     concat (map (\<lambda>x. ''Dumping output for cmd '' @ [CHR 0x27] @ cmd x @ [CHR 0x27] @ '' from host ''
                        @ Name x @ '':'' @ [CHR 0x0A] @ Stdout x)
                 (filter (\<lambda>x. Name x = h) (HOSTS ds)))"

definition DumpAllStdout :: "DistShell \<Rightarrow> string" where
  "DumpAllStdout ds =
     concat (map (\<lambda>x. ''Dumping output for host: '' @ Name x @ [CHR 0x0A] @ Stdout x) (HOSTS ds))"

section \<open>The per-host work functions\<close>

text \<open>
  A work item runs in its own goroutine with a pointer to its host record and the
  status channel. Its model returns the record as the work item leaves it, the
  messages it sends on the channel, in order, and the external programs it runs
  (program and argument vector), in order.

  \<open>runCMD\<close>: the test for an empty command sends a message and sets \<open>CmdError\<close>, and
  the function goes on (the branch has no \<open>return\<close>): it looks \<open>ssh\<close> up, builds the
  argument vector and runs the program. In the error branch the message is sent, then
  \<open>Stdout\<close> and \<open>CmdError\<close> are set; in the success branch \<open>Stdout\<close> is set and the
  message is sent; \<open>CmdError\<close> is not assigned there.
\<close>

type_synonym work_result = "Host \<times> string list \<times> string list list"

definition sshArgs :: "Host \<Rightarrow> string list" where
  "sshArgs h = [''-o'', ''StrictHostKeyChecking=no'', ''-o'', ''BatchMode=yes'', Name h, cmd h] @ args h"

definition noCommandError :: string where
  "noCommandError = ''no available command to execute''"

definition runCMD :: "env \<Rightarrow> nat \<Rightarrow> Host \<Rightarrow> fatal + work_result" where
  "runCMD e i h =
     (let sent = (if cmd h = [] then [''ERROR: host '' @ Name h @ '' has no available command to execute'']
                  else []);
          h1 = (if cmd h = [] then h\<lparr>CmdError := Some noCommandError\<rparr> else h)
      in case lookPath e ''ssh'' of
           None \<Rightarrow> Inl ExitNoSSH
         | Some SSH \<Rightarrow>
             (case run e i SSH (sshArgs h1) of
                (out, Some err) \<Rightarrow>
                  Inr (h1\<lparr>Stdout := out, CmdError := Some err\<rparr>,
                       sent @ [''ERROR: Failed to exec command on host '' @ Name h1 @ '': '' @ err],
                       [SSH # sshArgs h1])
              | (out, None) \<Rightarrow>
                  Inr (h1\<lparr>Stdout := out\<rparr>,
                       sent @ [''INFO: completed running command on host '' @ Name h1],
                       [SSH # sshArgs h1])))"

text \<open>
  The anonymous function that \<open>GetFile\<close> launches for each host; \<open>SCP\<close>,
  \<open>filestring\<close> and \<open>destination\<close> are the variables it captures. It assigns
  \<open>CmdError\<close> in the error branch and no field of the record otherwise.
\<close>

definition scpArgs :: "string \<Rightarrow> string \<Rightarrow> Host \<Rightarrow> string list" where
  "scpArgs filestring destination hostname =
     [''-o'', ''BatchMode=yes'', ''-o'', ''StrictHostKeyChecking=no'',
      Name hostname @ '':'' @ filestring, destination]"

definition getFileTask :: "env \<Rightarrow> string \<Rightarrow> string \<Rightarrow> string \<Rightarrow> nat \<Rightarrow> Host \<Rightarrow> fatal + work_result" where
  "getFileTask e SCP filestring destination i hostname =
     (case run e i SCP (scpArgs filestring destination hostname) of
        (cmdout, Some cmderr) \<Rightarrow>
          Inr (hostname\<lparr>CmdError := Some cmderr\<rparr>,
               [Name hostname @ '': ERROR '' @ cmdout @ '': '' @ cmderr],
               [SCP # scpArgs filestring destination hostname])
      | (cmdout, None) \<Rightarrow>
          Inr (hostname, [Name hostname @ '': SUCCESS''],
               [SCP # scpArgs filestring destination hostname]))"

section \<open>The batched dispatch loop\<close>

text \<open>
  \<open>Execute\<close> and \<open>GetFile\<close> contain the same loop, character for character, around
  different work functions; it is modelled once, with the work function as a parameter.

  The controlling task is sequential: for each host index it starts a goroutine,
  increments \<open>runningCount\<close> and \<open>TotalCmdsRun\<close>, and when the batch is full or the last
  host has been launched it receives \<open>runningCount\<close> messages from \<open>cmdStatus\<close>,
  printing each one when \<open>monitor\<close> is set, and resets \<open>runningCount\<close>.

  The goroutines are modelled by the schedule in which each work item runs to its end
  when it is launched. The channel together with the queue of senders waiting on it is
  a first-in-first-out queue, so \<open>cmdStatus\<close> is a list: a work item appends what it
  sends, a receive takes the head. A receive from a queue that holds no message, with
  no work item left to send one, never returns: \<open>Blocked\<close>.

  The controlling task only counts messages. When every work item sends exactly one
  message, a batch is drained only when each of its work items has sent its message,
  and the records and the error of the modelled schedule are those of the call once
  its work items have ended (in the error branch of \<open>runCMD\<close> the two assignments
  follow the message); the order in which the messages of one batch arrive is the
  launch order in the model and any order in the program. When a work item sends
  two messages (\<open>runCMD\<close> at a host without a command, the first one before \<open>ssh\<close>
  starts) the program's controlling task can go on, scan the records and return while
  work items still run, or leave a sender blocked for ever: for such a session the
  modelled schedule is one among several, and the properties below of what \<open>Execute\<close>
  leaves are stated for sessions in which every host has a command.

  \<open>trace\<close> records what the controlling task does, in order: \<open>Launch i\<close> for the
  \<open>go\<close> statement of host \<open>i\<close>, \<open>Recv s\<close> for each message received.
\<close>

datatype event = Launch nat | Recv string

record loopst =
  hosts :: "Host list"
  runningCount :: nat
  TotalCmdsRun :: nat
  cmdStatus :: "string list"
  printed :: "string list"
  trace :: "event list"
  invoked :: "string list list"

text \<open>
  \<open>launch\<close> is the \<open>go\<close> statement for host \<open>i\<close> followed by the two increments: the
  work item gets the record in slot \<open>i\<close> (the pointer \<open>&ds.HOSTS[i]\<close>), and what it
  leaves is written back to that slot. A fatal end of the work item ends the process.
\<close>

definition launch :: "(nat \<Rightarrow> Host \<Rightarrow> fatal + work_result) \<Rightarrow> nat \<Rightarrow> loopst \<Rightarrow> fatal + loopst" where
  "launch work i st =
     (case work i (hosts st ! i) of
        Inl f \<Rightarrow> Inl f
      | Inr (h', sent, progs) \<Rightarrow>
          Inr (st\<lparr>hosts := (hosts st)[i := h'],
                  cmdStatus := cmdStatus st @ sent,
                  trace := trace st @ [Launch i],
                  invoked := invoked st @ progs,
                  runningCount := runningCount st + 1,
                  TotalCmdsRun := TotalCmdsRun st + 1\<rparr>))"

text \<open>
  \<open>drain\<close> is the inner loop \<open>for c := 0; c < runningCount; c++\<close>: it receives
  \<open>runningCount\<close> messages, prints them when \<open>mon\<close> is set, and then sets
  \<open>runningCount\<close> to zero.
\<close>

definition drain :: "bool \<Rightarrow> loopst \<Rightarrow> fatal + loopst" where
  "drain mon st =
     (if length (cmdStatus st) < runningCount st then Inl Blocked
      else Inr (st\<lparr>cmdStatus := drop (runningCount st) (cmdStatus st),
                   printed := printed st @ (if mon then take (runningCount st) (cmdStatus st) else []),
                   trace := trace st @ map Recv (take (runningCount st) (cmdStatus st)),
                   runningCount := 0\<rparr>))"

text \<open>The test \<open>runningCount >= ds.maxBatch || TotalCmdsRun >= TotalHosts\<close>.\<close>

definition batchFull :: "int \<Rightarrow> nat \<Rightarrow> loopst \<Rightarrow> bool" where
  "batchFull mb TotalHosts st \<longleftrightarrow> int (runningCount st) \<ge> mb \<or> TotalCmdsRun st \<ge> TotalHosts"

text \<open>The loop \<open>for i := range ds.HOSTS\<close>, over the list of the indices still to visit.\<close>

fun batchLoop :: "(nat \<Rightarrow> Host \<Rightarrow> fatal + work_result) \<Rightarrow> bool \<Rightarrow> int \<Rightarrow> nat \<Rightarrow> nat list \<Rightarrow> loopst
                  \<Rightarrow> fatal + loopst" where
  "batchLoop work mon mb TotalHosts [] st = Inr st"
| "batchLoop work mon mb TotalHosts (i # js) st =
     (case launch work i st of
        Inl f \<Rightarrow> Inl f
      | Inr st1 \<Rightarrow>
          (if batchFull mb TotalHosts st1
           then (case drain mon st1 of
                   Inl f \<Rightarrow> Inl f
                 | Inr st2 \<Rightarrow> batchLoop work mon mb TotalHosts js st2)
           else batchLoop work mon mb TotalHosts js st1))"

text \<open>The state in which the loop is entered: both counters zero, the channel empty.\<close>

definition initial :: "Host list \<Rightarrow> loopst" where
  "initial hs = \<lparr>hosts = hs, runningCount = 0, TotalCmdsRun = 0, cmdStatus = [],
                 printed = [], trace = [], invoked = []\<rparr>"

subsection \<open>The aggregate error\<close>

text \<open>
  \<open>strings.TrimRight(s, cutset)\<close> removes every trailing character of \<open>s\<close> that is in
  \<open>cutset\<close>. The scan appends the name and a comma for each record whose \<open>CmdError\<close>
  is set.
\<close>

definition TrimRight :: "string \<Rightarrow> string \<Rightarrow> string" where
  "TrimRight s cutset = rev (dropWhile (\<lambda>c. c \<in> set cutset) (rev s))"

fun failedHosts :: "string \<Rightarrow> Host list \<Rightarrow> string" where
  "failedHosts acc [] = acc"
| "failedHosts acc (h # hs) =
     failedHosts (if CmdError h \<noteq> None then acc @ Name h @ '','' else acc) hs"

definition aggregate :: "Host list \<Rightarrow> string option" where
  "aggregate hs =
     (if failedHosts [] hs \<noteq> [] then Some (TrimRight (failedHosts [] hs) '','') else None)"

subsection \<open>Execute, ExecuteAll, GetFile\<close>

text \<open>
  What a dispatch call leaves behind: the session with its records as the work items
  left them, the error it returns, the lines printed by the monitor, the trace of the
  controlling task, the messages still in the channel when the call returns, and the
  external programs that were run.
\<close>

record outcome =
  shell :: DistShell
  result :: "string option"
  console :: "string list"
  events :: "event list"
  pending :: "string list"
  calls :: "string list list"

text \<open>
  \<open>settle\<close> is the end of both calls: the scan for records with an error and the
  returned error. \<open>dispatch\<close> is the loop over all hosts followed by that end.
\<close>

definition settle :: "DistShell \<Rightarrow> loopst \<Rightarrow> outcome" where
  "settle ds st = \<lparr>shell = ds\<lparr>HOSTS := hosts st\<rparr>, result = aggregate (hosts st),
                   console = printed st, events = trace st, pending = cmdStatus st,
                   calls = invoked st\<rparr>"

definition dispatch :: "(nat \<Rightarrow> Host \<Rightarrow> fatal + work_result) \<Rightarrow> DistShell \<Rightarrow> fatal + outcome" where
  "dispatch work ds =
     (case batchLoop work (monitor ds) (maxBatch ds) (length (HOSTS ds))
             [0..<length (HOSTS ds)] (initial (HOSTS ds)) of
        Inl f \<Rightarrow> Inl f
      | Inr st \<Rightarrow> Inr (settle ds st))"

text \<open>
  Both calls start with \<open>make(chan string, ds.maxBatch)\<close>. The run time panics when the
  size is negative, and when the buffer (sixteen bytes for each string, after the
  header of the channel) passes its largest allocation, \<open>2 ^ 48\<close> bytes on a 64-bit
  platform: that is so for every size from \<open>2 ^ 44\<close> on. Below that the buffer is
  allocated at once, and the call does not return when the memory is not there: the
  size is beyond \<open>chanLimit\<close>.
\<close>

definition makeChan :: "env \<Rightarrow> int \<Rightarrow> fatal option" where
  "makeChan e n =
     (if n < 0 \<or> 2 ^ 44 \<le> n \<or> chanLimit e < n then Some MakeChanFailed else None)"

definition Execute :: "env \<Rightarrow> DistShell \<Rightarrow> fatal + outcome" where
  "Execute e ds =
     (case makeChan e (maxBatch ds) of
        Some f \<Rightarrow> Inl f
      | None \<Rightarrow> dispatch (runCMD e) ds)"

definition ExecuteAll :: "env \<Rightarrow> DistShell \<Rightarrow> string \<Rightarrow> string list \<Rightarrow> fatal + outcome" where
  "ExecuteAll e ds command as =
     Execute e (fold (\<lambda>i d. fst (AddCommand d (Name (HOSTS d ! i)) command as))
                     [0..<length (HOSTS ds)] ds)"

definition GetFile :: "env \<Rightarrow> DistShell \<Rightarrow> string \<Rightarrow> string \<Rightarrow> fatal + outcome" where
  "GetFile e ds filestring destination =
     (case makeChan e (maxBatch ds) of
        Some f \<Rightarrow> Inl f
      | None \<Rightarrow>
          (case lookPath e ''scp'' of
             None \<Rightarrow> Inl ExitNoSCP
           | Some SCP \<Rightarrow> dispatch (getFileTask e SCP filestring destination) ds))"

section \<open>Notions used to state the properties\<close>

text \<open>The record a work function leaves behind (the record itself when the process dies).\<close>

definition hostAfter :: "(nat \<Rightarrow> Host \<Rightarrow> fatal + work_result) \<Rightarrow> nat \<Rightarrow> Host \<Rightarrow> Host" where
  "hostAfter work i h = (case work i h of Inr (h', s, p) \<Rightarrow> h' | Inl f \<Rightarrow> h)"

text \<open>
  The trace of a run made of batches: for each batch, the launches of its host indices
  followed by the receipt of its messages.
\<close>

definition batchTrace :: "(nat list \<times> string list) list \<Rightarrow> event list" where
  "batchTrace bs = concat (map (\<lambda>(b, ms). map Launch b @ map Recv ms) bs)"

text \<open>Work items launched and not yet answered by a received message.\<close>

fun inFlight :: "event list \<Rightarrow> int" where
  "inFlight [] = 0"
| "inFlight (Launch i # t) = inFlight t + 1"
| "inFlight (Recv s # t) = inFlight t - 1"

text \<open>
  The host that a step of the trace launches, if the step is a launch: the shape of a
  trace, whatever the messages received are.
\<close>

fun launched :: "event \<Rightarrow> nat option" where
  "launched (Launch i) = Some i"
| "launched (Recv s) = None"

definition shapeOf :: "fatal + outcome \<Rightarrow> fatal + nat option list" where
  "shapeOf r = map_sum id (map launched \<circ> events) r"



text \<open>Projections of what a dispatch call returns, kept through a fatal end.\<close>

definition resultOf :: "fatal + outcome \<Rightarrow> fatal + string option" where
  "resultOf r = map_sum id result r"

definition hostsOf :: "fatal + outcome \<Rightarrow> fatal + Host list" where
  "hostsOf r = map_sum id (HOSTS \<circ> shell) r"

definition eventsOf :: "fatal + outcome \<Rightarrow> fatal + event list" where
  "eventsOf r = map_sum id events r"

definition shellOf :: "fatal + outcome \<Rightarrow> DistShell" where
  "shellOf r = (case r of Inr out \<Rightarrow> shell out | Inl f \<Rightarrow> New [])"

definition withMaxBatch :: "int \<Rightarrow> fatal + outcome \<Rightarrow> fatal + outcome" where
  "withMaxBatch m r = map_sum id (\<lambda>out. out\<lparr>shell := SetMaxBatch (shell out) m\<rparr>) r"

subsection \<open>The aggregate error and the batches\<close>




text \<open>
  A run in batches \<open>bs\<close> (each the indices launched and the messages received) of
  width at most \<open>w\<close> over \<open>n\<close> hosts: the trace is the batches one after the other, the
  batches launch the hosts \<open>0, ..., n - 1\<close> in order, each batch receives as many
  messages as it launched, no message is left in the channel, and after every step of
  the trace between \<open>0\<close> and \<open>w\<close> work items are in flight.
\<close>

definition batchedRun :: "int \<Rightarrow> nat \<Rightarrow> outcome \<Rightarrow> (nat list \<times> string list) list \<Rightarrow> bool" where
  "batchedRun w n out bs \<longleftrightarrow>
     events out = batchTrace bs \<and>
     concat (map fst bs) = [0..<n] \<and>
     list_all (\<lambda>(b, ms). length ms = length b \<and> 1 \<le> length b \<and> int (length b) \<le> w) bs \<and>
     pending out = [] \<and>
     list_all (\<lambda>k. 0 \<le> inFlight (take k (events out)) \<and> inFlight (take k (events out)) \<le> w)
              [0..<Suc (length (events out))]"

text \<open>The command and the arguments of every record, in order.\<close>

definition assignments :: "DistShell \<Rightarrow> (string \<times> string list) list" where
  "assignments ds = map (\<lambda>h. (cmd h, args h)) (HOSTS ds)"

section \<open>Sample environments and sessions\<close>

text \<open>
  Both programs are found; every run succeeds with output \<open>ok\<close>; there is memory for a
  channel of up to \<open>2 ^ 20\<close> strings.
\<close>

definition envOk :: env where
  "envOk = \<lparr>lookPath = (\<lambda>p. Some (''/usr/bin/'' @ p)), run = (\<lambda>i prog argv. (''ok'', None)),
            chanLimit = 1048576\<rparr>"

text \<open>The same, but every run fails with output \<open>refused\<close>.\<close>

definition envDown :: env where
  "envDown = \<lparr>lookPath = (\<lambda>p. Some (''/usr/bin/'' @ p)),
              run = (\<lambda>i prog argv. (''refused'', Some ''exit status 255'')),
              chanLimit = 1048576\<rparr>"

text \<open>A fresh record, with no command.\<close>

definition idle :: Host where
  "idle = \<lparr>Name = ''h1'', Stdout = [], cmd = [], args = [], CmdError = None\<rparr>"

text \<open>The session of the usage example, its three commands assigned.\<close>

definition cluster :: DistShell where
  "cluster =
     fst (AddCommand (fst (AddCommand (fst (AddCommand
            (New [''host1'', ''host2'', ''host3'']) ''host1'' ''/bin/df'' []))
            ''host2'' ''/bin/echo'' [''-n'']))
            ''host3'' ''/bin/echo'' [''3''])"

text \<open>One host with a command.\<close>

definition single :: DistShell where
  "single = fst (AddCommand (New [''h1'']) ''h1'' ''uptime'' [])"


text \<open>A session in which two records carry the same name.\<close>

definition twins :: DistShell where
  "twins = New [''a'', ''b'', ''a'']"

section \<open>The dispatch loop: auxiliary facts\<close>

lemma launch_Inr:
  "work i (hosts st ! i) = Inr (h', s, p) \<Longrightarrow>
   launch work i st =
     Inr (st\<lparr>hosts := (hosts st)[i := h'], cmdStatus := cmdStatus st @ s,
             trace := trace st @ [Launch i], invoked := invoked st @ p,
             runningCount := runningCount st + 1, TotalCmdsRun := TotalCmdsRun st + 1\<rparr>)"
  by (simp add: launch_def)

lemma drain_Inr:
  "runningCount st \<le> length (cmdStatus st) \<Longrightarrow>
   drain mon st =
     Inr (st\<lparr>cmdStatus := drop (runningCount st) (cmdStatus st),
             printed := printed st @ (if mon then take (runningCount st) (cmdStatus st) else []),
             trace := trace st @ map Recv (take (runningCount st) (cmdStatus st)),
             runningCount := 0\<rparr>)"
  by (simp add: drain_def)

lemma launch_fields:
  "launch work i st = Inr st1 \<Longrightarrow>
     runningCount st1 = runningCount st + 1 \<and> TotalCmdsRun st1 = TotalCmdsRun st + 1 \<and>
     trace st1 = trace st @ [Launch i]"
  by (auto simp: launch_def split: sum.splits prod.splits)

lemma drain_fields:
  "drain mon st1 = Inr st2 \<Longrightarrow>
     runningCount st2 = 0 \<and> TotalCmdsRun st2 = TotalCmdsRun st1 \<and>
     trace st2 = trace st1 @ map Recv (take (runningCount st1) (cmdStatus st1)) \<and>
     runningCount st1 \<le> length (cmdStatus st1)"
  by (auto simp: drain_def split: if_splits)

lemma batchLoop_step:
  assumes w: "work i (hosts st ! i) = Inr (h', s, p)" and ne: "s \<noteq> []"
    and inv: "runningCount st \<le> length (cmdStatus st)"
  shows "\<exists>st2. batchLoop work mon mb n (i # js) st = batchLoop work mon mb n js st2
           \<and> hosts st2 = (hosts st)[i := h']
           \<and> runningCount st2 \<le> length (cmdStatus st2)"
proof -
  let ?st1 = "st\<lparr>hosts := (hosts st)[i := h'], cmdStatus := cmdStatus st @ s,
             trace := trace st @ [Launch i], invoked := invoked st @ p,
             runningCount := runningCount st + 1, TotalCmdsRun := TotalCmdsRun st + 1\<rparr>"
  have L: "launch work i st = Inr ?st1" using w by (rule launch_Inr)
  have inv1: "runningCount ?st1 \<le> length (cmdStatus ?st1)"
    using inv ne by (cases s) simp_all
  show ?thesis
  proof (cases "batchFull mb n ?st1")
    case True
    let ?st2 = "?st1\<lparr>cmdStatus := drop (runningCount ?st1) (cmdStatus ?st1),
             printed := printed ?st1 @ (if mon then take (runningCount ?st1) (cmdStatus ?st1) else []),
             trace := trace ?st1 @ map Recv (take (runningCount ?st1) (cmdStatus ?st1)),
             runningCount := 0\<rparr>"
    have D: "drain mon ?st1 = Inr ?st2" using inv1 by (rule drain_Inr)
    have "batchLoop work mon mb n (i # js) st = batchLoop work mon mb n js ?st2"
      using L D True by simp
    moreover have "hosts ?st2 = (hosts st)[i := h']" by simp
    moreover have "runningCount ?st2 \<le> length (cmdStatus ?st2)" by simp
    ultimately show ?thesis by blast
  next
    case False
    have "batchLoop work mon mb n (i # js) st = batchLoop work mon mb n js ?st1"
      using L False by simp
    moreover have "hosts ?st1 = (hosts st)[i := h']" by simp
    ultimately show ?thesis using inv1 by blast
  qed
qed

text \<open>
  When every work item returns and sends at least one message, the loop returns, and it
  leaves in slot \<open>j\<close> what the work function makes of the record of slot \<open>j\<close>.
\<close>

lemma batchLoop_hosts:
  assumes W: "\<And>i h. \<exists>h' s p. work i h = Inr (h', s, p) \<and> s \<noteq> []"
  shows "runningCount st \<le> length (cmdStatus st) \<Longrightarrow> distinct js \<Longrightarrow>
     (\<forall>i\<in>set js. i < length (hosts st)) \<Longrightarrow>
     \<exists>st'. batchLoop work mon mb n js st = Inr st' \<and> length (hosts st') = length (hosts st) \<and>
       (\<forall>j<length (hosts st). hosts st' ! j =
            (if j \<in> set js then hostAfter work j (hosts st ! j) else hosts st ! j))"
proof (induction js arbitrary: st)
  case Nil
  then show ?case by simp
next
  case (Cons i js)
  obtain h' s p where w: "work i (hosts st ! i) = Inr (h', s, p)" and ne: "s \<noteq> []"
    using W by blast
  obtain st2 where eq: "batchLoop work mon mb n (i # js) st = batchLoop work mon mb n js st2"
    and h2: "hosts st2 = (hosts st)[i := h']"
    and inv2: "runningCount st2 \<le> length (cmdStatus st2)"
    using batchLoop_step [where work=work and i=i and st=st and h'=h' and s=s and p=p and mon=mon and mb=mb and n=n and js=js] w ne Cons.prems(1) by blast
  have d: "distinct js" and ni: "i \<notin> set js" using Cons.prems(2) by simp_all
  have bnd: "\<forall>k\<in>set js. k < length (hosts st2)" using Cons.prems(3) h2 by simp
  obtain st' where r: "batchLoop work mon mb n js st2 = Inr st'"
    and len: "length (hosts st') = length (hosts st2)"
    and pt: "\<forall>j<length (hosts st2). hosts st' ! j =
            (if j \<in> set js then hostAfter work j (hosts st2 ! j) else hosts st2 ! j)"
    using Cons.IH [OF inv2 d bnd] by blast
  have ha: "hostAfter work i (hosts st ! i) = h'" using w by (simp add: hostAfter_def)
  have "\<forall>j<length (hosts st). hosts st' ! j =
            (if j \<in> set (i # js) then hostAfter work j (hosts st ! j) else hosts st ! j)"
  proof (intro allI impI)
    fix j assume j: "j < length (hosts st)"
    then have "hosts st' ! j = (if j \<in> set js then hostAfter work j (hosts st2 ! j) else hosts st2 ! j)"
      using pt h2 by simp
    then show "hosts st' ! j = (if j \<in> set (i # js) then hostAfter work j (hosts st ! j) else hosts st ! j)"
      using h2 ni j ha by (cases "j = i") auto
  qed
  then show ?case using eq r len h2 by simp
qed

text \<open>A batch size of at least the number of hosts behaves as one equal to it.\<close>

lemma batchLoop_width:
  "int n \<le> mb \<Longrightarrow> runningCount st \<le> TotalCmdsRun st \<Longrightarrow>
   batchLoop work mon mb n js st = batchLoop work mon (int n) n js st"
proof (induction js arbitrary: st)
  case Nil
  then show ?case by simp
next
  case (Cons i js)
  show ?case
  proof (cases "launch work i st")
    case (Inl f)
    then show ?thesis by simp
  next
    case (Inr st1)
    have f1: "runningCount st1 = runningCount st + 1" "TotalCmdsRun st1 = TotalCmdsRun st + 1"
      using launch_fields [OF Inr] by simp_all
    have le1: "runningCount st1 \<le> TotalCmdsRun st1" using f1 Cons.prems(2) by simp
    have full: "batchFull mb n st1 = batchFull (int n) n st1"
      using le1 Cons.prems(1) by (auto simp: batchFull_def)
    show ?thesis
    proof (cases "batchFull mb n st1")
      case True
      show ?thesis
      proof (cases "drain mon st1")
        case (Inl f)
        then show ?thesis using Inr True full by simp
      next
        case st2: (Inr st2)
        have "runningCount st2 \<le> TotalCmdsRun st2" using drain_fields [OF st2] by simp
        then have "batchLoop work mon mb n js st2 = batchLoop work mon (int n) n js st2"
          using Cons.IH Cons.prems(1) by blast
        then show ?thesis using Inr True full st2 by simp
      qed
    next
      case False
      have "batchLoop work mon mb n js st1 = batchLoop work mon (int n) n js st1"
        using Cons.IH Cons.prems(1) le1 by blast
      then show ?thesis using Inr False full by simp
    qed
  qed
qed

lemma batchLoop_single:
  "int n \<le> mb \<Longrightarrow> runningCount st \<le> TotalCmdsRun st \<Longrightarrow> TotalCmdsRun st + length js = n \<Longrightarrow>
   batchLoop work mon mb n js st = Inr st' \<Longrightarrow>
   \<exists>ms. trace st' = trace st @ map Launch js @ map Recv ms \<and>
        length ms = (if js = [] then 0 else runningCount st + length js)"
proof (induction js arbitrary: st)
  case Nil
  then show ?case by simp
next
  case (Cons i js)
  from Cons.prems(4) obtain st1 where L: "launch work i st = Inr st1"
    by (cases "launch work i st") simp_all
  have f1: "runningCount st1 = runningCount st + 1" "TotalCmdsRun st1 = TotalCmdsRun st + 1"
     "trace st1 = trace st @ [Launch i]"
    using launch_fields [OF L] by simp_all
  have le1: "runningCount st1 \<le> TotalCmdsRun st1" using f1 Cons.prems(2) by simp
  show ?case
  proof (cases "js = []")
    case True
    then have full: "batchFull mb n st1" using f1 Cons.prems(3) by (simp add: batchFull_def)
    from Cons.prems(4) L full True obtain st2 where D: "drain mon st1 = Inr st2" and e: "st' = st2"
      by (cases "drain mon st1") simp_all
    let ?ms = "take (runningCount st1) (cmdStatus st1)"
    have "trace st' = trace st @ map Launch (i # js) @ map Recv ?ms"
      using drain_fields [OF D] e f1 True by simp
    moreover have "length ?ms = runningCount st + length (i # js)"
      using drain_fields [OF D] f1 True by simp
    ultimately show ?thesis by (intro exI [of _ ?ms]) simp
  next
    case False
    then have lj: "1 \<le> int (length js)" by (cases js) simp_all
    have nf: "\<not> batchFull mb n st1"
      using f1 Cons.prems(1,2,3) lj by (auto simp: batchFull_def)
    have r: "batchLoop work mon mb n js st1 = Inr st'" using Cons.prems(4) L nf by simp
    have t: "TotalCmdsRun st1 + length js = n" using f1 Cons.prems(3) by simp
    obtain ms where "trace st' = trace st1 @ map Launch js @ map Recv ms"
      and "length ms = (if js = [] then 0 else runningCount st1 + length js)"
      using Cons.IH [OF Cons.prems(1) le1 t r] by blast
    then show ?thesis using f1 False by (intro exI [of _ ms]) simp
  qed
qed

text \<open>
  When every work item sends exactly one message, the trace is made of batches, and the
  channel is empty at the end. \<open>cur\<close> stands for the indices launched in the batch that
  is open when the loop is entered.
\<close>

lemma batchTrace_Cons: "batchTrace ((b, ms) # bs) = map Launch b @ map Recv ms @ batchTrace bs"
  by (simp add: batchTrace_def)

lemma batchTrace_Nil: "batchTrace [] = []"
  by (simp add: batchTrace_def)

lemma batchLoop_batches:
  assumes W: "\<And>i h. Q h \<Longrightarrow> \<exists>h' m p. work i h = Inr (h', [m], p) \<and> Q h'"
  shows "(\<forall>h\<in>set (hosts st). Q h) \<Longrightarrow> (\<forall>i\<in>set js. i < length (hosts st)) \<Longrightarrow>
     length (cmdStatus st) = runningCount st \<Longrightarrow> length cur = runningCount st \<Longrightarrow>
     int (length cur) < max 1 mb \<Longrightarrow> TotalCmdsRun st + length js = n \<Longrightarrow> (js = [] \<longrightarrow> cur = []) \<Longrightarrow>
     \<exists>st' bs T. batchLoop work mon mb n js st = Inr st' \<and> trace st' = trace st @ T \<and>
        map Launch cur @ T = batchTrace bs \<and> concat (map fst bs) = cur @ js \<and>
        (\<forall>(b, ms)\<in>set bs. length ms = length b \<and> 1 \<le> length b \<and> int (length b) \<le> max 1 mb) \<and>
        cmdStatus st' = []"
proof (induction js arbitrary: st cur)
  case Nil
  then show ?case by (intro exI [of _ st] exI [of _ "[]"]) (simp add: batchTrace_Nil)
next
  case (Cons i js)
  have "Q (hosts st ! i)" using Cons.prems(1,2) by simp
  then obtain h' m p where w: "work i (hosts st ! i) = Inr (h', [m], p)" and q': "Q h'"
    using W by blast
  let ?st1 = "st\<lparr>hosts := (hosts st)[i := h'], cmdStatus := cmdStatus st @ [m],
             trace := trace st @ [Launch i], invoked := invoked st @ p,
             runningCount := runningCount st + 1, TotalCmdsRun := TotalCmdsRun st + 1\<rparr>"
  have L: "launch work i st = Inr ?st1" using w by (rule launch_Inr)
  have Q1: "\<forall>h\<in>set (hosts ?st1). Q h"
    using Cons.prems(1) q' by (auto dest: set_update_subset_insert [THEN subsetD])
  have B1: "\<forall>k\<in>set js. k < length (hosts ?st1)" using Cons.prems(2) by simp
  show ?case
  proof (cases "batchFull mb n ?st1")
    case True
    let ?ms = "cmdStatus st @ [m]"
    let ?st2 = "?st1\<lparr>cmdStatus := drop (runningCount ?st1) (cmdStatus ?st1),
             printed := printed ?st1 @ (if mon then take (runningCount ?st1) (cmdStatus ?st1) else []),
             trace := trace ?st1 @ map Recv (take (runningCount ?st1) (cmdStatus ?st1)),
             runningCount := 0\<rparr>"
    have D: "drain mon ?st1 = Inr ?st2" using Cons.prems(3) by (intro drain_Inr) simp
    have step: "batchLoop work mon mb n (i # js) st = batchLoop work mon mb n js ?st2"
      using L D True by simp
    have tr2: "trace ?st2 = trace st @ [Launch i] @ map Recv ?ms" using Cons.prems(3) by simp
    have "\<exists>st' bs T. batchLoop work mon mb n js ?st2 = Inr st' \<and> trace st' = trace ?st2 @ T \<and>
        map Launch [] @ T = batchTrace bs \<and> concat (map fst bs) = [] @ js \<and>
        (\<forall>(b, ms)\<in>set bs. length ms = length b \<and> 1 \<le> length b \<and> int (length b) \<le> max 1 mb) \<and>
        cmdStatus st' = []"
    proof (rule Cons.IH)
      show "\<forall>h\<in>set (hosts ?st2). Q h" using Q1 by simp
      show "\<forall>k\<in>set js. k < length (hosts ?st2)" using B1 by simp
      show "length (cmdStatus ?st2) = runningCount ?st2" using Cons.prems(3) by simp
      show "length ([]::nat list) = runningCount ?st2" by simp
      show "int (length ([]::nat list)) < max 1 mb" by simp
      show "TotalCmdsRun ?st2 + length js = n" using Cons.prems(6) by simp
      show "js = [] \<longrightarrow> ([]::nat list) = []" by simp
    qed
    then obtain st' bs T where r: "batchLoop work mon mb n js ?st2 = Inr st'"
      and t: "trace st' = trace ?st2 @ T" and bt: "T = batchTrace bs"
      and cc: "concat (map fst bs) = js"
      and ok: "\<forall>(b, ms)\<in>set bs. length ms = length b \<and> 1 \<le> length b \<and> int (length b) \<le> max 1 mb"
      and em: "cmdStatus st' = []"
      by auto
    let ?bs = "(cur @ [i], ?ms) # bs"
    let ?T = "[Launch i] @ map Recv ?ms @ T"
    have "batchLoop work mon mb n (i # js) st = Inr st'" using step r by simp
    moreover have "trace st' = trace st @ ?T" using t tr2 by simp
    moreover have "map Launch cur @ ?T = batchTrace ?bs" using bt by (simp add: batchTrace_Cons)
    moreover have "concat (map fst ?bs) = cur @ i # js" using cc by simp
    moreover have "\<forall>(b, ms)\<in>set ?bs. length ms = length b \<and> 1 \<le> length b \<and> int (length b) \<le> max 1 mb"
      using ok Cons.prems(3,4,5) by auto
    ultimately show ?thesis using em by blast
  next
    case False
    have nf: "int (runningCount st + 1) < mb" "TotalCmdsRun st + 1 < n"
      using False by (auto simp: batchFull_def)
    have step: "batchLoop work mon mb n (i # js) st = batchLoop work mon mb n js ?st1"
      using L False by simp
    have "\<exists>st' bs T. batchLoop work mon mb n js ?st1 = Inr st' \<and> trace st' = trace ?st1 @ T \<and>
        map Launch (cur @ [i]) @ T = batchTrace bs \<and> concat (map fst bs) = (cur @ [i]) @ js \<and>
        (\<forall>(b, ms)\<in>set bs. length ms = length b \<and> 1 \<le> length b \<and> int (length b) \<le> max 1 mb) \<and>
        cmdStatus st' = []"
    proof (rule Cons.IH)
      show "\<forall>h\<in>set (hosts ?st1). Q h" using Q1 .
      show "\<forall>k\<in>set js. k < length (hosts ?st1)" using B1 .
      show "length (cmdStatus ?st1) = runningCount ?st1" using Cons.prems(3) by simp
      show "length (cur @ [i]) = runningCount ?st1" using Cons.prems(4) by simp
      show "int (length (cur @ [i])) < max 1 mb" using nf Cons.prems(4) by simp
      show "TotalCmdsRun ?st1 + length js = n" using Cons.prems(6) by simp
      show "js = [] \<longrightarrow> cur @ [i] = []" using nf Cons.prems(6) by auto
    qed
    then obtain st' bs T where r: "batchLoop work mon mb n js ?st1 = Inr st'"
      and t: "trace st' = trace ?st1 @ T" and bt: "map Launch (cur @ [i]) @ T = batchTrace bs"
      and cc: "concat (map fst bs) = (cur @ [i]) @ js"
      and ok: "\<forall>(b, ms)\<in>set bs. length ms = length b \<and> 1 \<le> length b \<and> int (length b) \<le> max 1 mb"
      and em: "cmdStatus st' = []"
      by blast
    have "batchLoop work mon mb n (i # js) st = Inr st'" using step r by simp
    moreover have "trace st' = trace st @ ([Launch i] @ T)" using t by simp
    moreover have "map Launch cur @ ([Launch i] @ T) = batchTrace bs" using bt by simp
    moreover have "concat (map fst bs) = cur @ i # js" using cc by simp
    ultimately show ?thesis using ok em by blast
  qed
qed

lemma inFlight_append: "inFlight (xs @ ys) = inFlight xs + inFlight ys"
  by (induction xs rule: inFlight.induct) simp_all

lemma inFlight_Launch: "inFlight (map Launch b) = int (length b)"
  by (induction b) simp_all

lemma inFlight_Recv: "inFlight (map Recv ms) = - int (length ms)"
  by (induction ms) simp_all

lemma inFlight_block:
  assumes "length ms = length b"
  shows "0 \<le> inFlight (take k (map Launch b @ map Recv ms)) \<and>
         inFlight (take k (map Launch b @ map Recv ms)) \<le> int (length b)"
proof -
  have "inFlight (take k (map Launch b @ map Recv ms)) =
          int (min (length b) k) - int (min (length ms) (k - length b))"
    by (simp add: take_map inFlight_append inFlight_Launch inFlight_Recv)
  then show ?thesis using assms by auto
qed

lemma inFlight_block_whole: "length ms = length b \<Longrightarrow> inFlight (map Launch b @ map Recv ms) = 0"
  by (simp add: inFlight_append inFlight_Launch inFlight_Recv)

lemma inFlight_batchTrace:
  assumes "0 \<le> w"
  shows "list_all (\<lambda>(b, ms). length ms = length b \<and> 1 \<le> length b \<and> int (length b) \<le> w) bs \<Longrightarrow>
         0 \<le> inFlight (take k (batchTrace bs)) \<and> inFlight (take k (batchTrace bs)) \<le> w"
proof (induction bs arbitrary: k)
  case Nil
  then show ?case using assms by (simp add: batchTrace_Nil)
next
  case (Cons x bs)
  obtain b ms where x: "x = (b, ms)" by (cases x)
  have len: "length ms = length b" and wd: "int (length b) \<le> w" using Cons.prems x by simp_all
  have rest: "list_all (\<lambda>(b, ms). length ms = length b \<and> 1 \<le> length b \<and> int (length b) \<le> w) bs"
    using Cons.prems by simp
  let ?blk = "map Launch b @ map Recv ms"
  have bt: "batchTrace (x # bs) = ?blk @ batchTrace bs" using x by (simp add: batchTrace_Cons)
  show ?case
  proof (cases "k \<le> length ?blk")
    case True
    then have "take k (batchTrace (x # bs)) = take k ?blk" using bt by simp
    then show ?thesis using inFlight_block [OF len, of k] wd by simp
  next
    case False
    then have "take k (batchTrace (x # bs)) = ?blk @ take (k - length ?blk) (batchTrace bs)"
      using bt by simp
    then have "inFlight (take k (batchTrace (x # bs))) = inFlight (take (k - length ?blk) (batchTrace bs))"
      using inFlight_block_whole [OF len] by (simp add: inFlight_append)
    then show ?thesis using Cons.IH [OF rest] by simp
  qed
qed

text \<open>No work function of the program touches the command or the arguments.\<close>

lemma launch_frame:
  assumes P: "\<And>i h h' s p. work i h = Inr (h', s, p) \<Longrightarrow> cmd h' = cmd h \<and> args h' = args h"
    and L: "launch work i st = Inr st1"
  shows "map (\<lambda>h. (cmd h, args h)) (hosts st1) = map (\<lambda>h. (cmd h, args h)) (hosts st)"
proof -
  obtain h' s p where w: "work i (hosts st ! i) = Inr (h', s, p)" and h1: "hosts st1 = (hosts st)[i := h']"
    using L by (auto simp: launch_def split: sum.splits prod.splits)
  have same: "(cmd h', args h') = (cmd (hosts st ! i), args (hosts st ! i))" using P [OF w] by simp
  show ?thesis
  proof (cases "i < length (hosts st)")
    case True
    have "map (\<lambda>h. (cmd h, args h)) ((hosts st)[i := h']) =
          (map (\<lambda>h. (cmd h, args h)) (hosts st))[i := (cmd h', args h')]"
      by (simp add: map_update)
    also have "\<dots> = map (\<lambda>h. (cmd h, args h)) (hosts st)"
      using True same by (simp add: list_update_same_conv)
    finally show ?thesis using h1 by simp
  next
    case False
    then have "(hosts st)[i := h'] = hosts st" by (simp add: list_update_beyond)
    then show ?thesis using h1 by simp
  qed
qed

lemma batchLoop_frame:
  assumes P: "\<And>i h h' s p. work i h = Inr (h', s, p) \<Longrightarrow> cmd h' = cmd h \<and> args h' = args h"
  shows "batchLoop work mon mb n js st = Inr st' \<Longrightarrow>
         map (\<lambda>h. (cmd h, args h)) (hosts st') = map (\<lambda>h. (cmd h, args h)) (hosts st)"
proof (induction js arbitrary: st)
  case Nil
  then show ?case by simp
next
  case (Cons i js)
  from Cons.prems obtain st1 where L: "launch work i st = Inr st1"
    by (cases "launch work i st") simp_all
  have f1: "map (\<lambda>h. (cmd h, args h)) (hosts st1) = map (\<lambda>h. (cmd h, args h)) (hosts st)"
    using launch_frame [of work i st st1] P L by blast
  show ?case
  proof (cases "batchFull mb n st1")
    case True
    from Cons.prems L True obtain st2 where D: "drain mon st1 = Inr st2"
      and r: "batchLoop work mon mb n js st2 = Inr st'"
      by (cases "drain mon st1") simp_all
    have "hosts st2 = hosts st1" using D by (auto simp: drain_def split: if_splits)
    then show ?thesis using Cons.IH [OF r] f1 by simp
  next
    case False
    then have "batchLoop work mon mb n js st1 = Inr st'" using Cons.prems L by simp
    then show ?thesis using Cons.IH f1 by simp
  qed
qed

section \<open>The work functions and the dispatch calls: auxiliary facts\<close>

lemma sshArgs_CmdError: "sshArgs (h\<lparr>CmdError := x\<rparr>) = sshArgs h"
  by (simp add: sshArgs_def)

lemma runCMD_emits:
  "lookPath e ''ssh'' = Some p \<Longrightarrow> \<exists>h' s q. runCMD e i h = Inr (h', s, q) \<and> s \<noteq> []"
  by (auto simp: runCMD_def Let_def split: prod.splits option.splits)

lemma runCMD_one:
  assumes "lookPath e ''ssh'' = Some p" and "cmd h \<noteq> []"
  shows "\<exists>h' m q. runCMD e i h = Inr (h', [m], q) \<and> cmd h' \<noteq> []"
  using assms by (auto simp: runCMD_def split: prod.splits option.splits)

lemma runCMD_after:
  assumes "lookPath e ''ssh'' = Some p"
  shows "hostAfter (runCMD e) i h =
           h\<lparr>Stdout := fst (run e i p (sshArgs h)),
             CmdError := (case snd (run e i p (sshArgs h)) of
                            Some er \<Rightarrow> Some er
                          | None \<Rightarrow> if cmd h = [] then Some noCommandError else CmdError h)\<rparr>"
  using assms
  by (auto simp: hostAfter_def runCMD_def Let_def sshArgs_CmdError split: prod.splits option.splits)

lemma runCMD_frame: "runCMD e i h = Inr (h', s, p) \<Longrightarrow> cmd h' = cmd h \<and> args h' = args h"
  by (auto simp: runCMD_def Let_def split: option.splits prod.splits if_splits)

lemma getFileTask_emits:
  "\<exists>h' s q. getFileTask e scp f d i h = Inr (h', s, q) \<and> s \<noteq> []"
  by (auto simp: getFileTask_def split: prod.splits option.splits)

lemma getFileTask_one: "\<exists>h' m q. getFileTask e scp f d i h = Inr (h', [m], q) \<and> True"
  by (auto simp: getFileTask_def split: prod.splits option.splits)

lemma getFileTask_after:
  "hostAfter (getFileTask e scp f d) i h =
     h\<lparr>CmdError := (case snd (run e i scp (scpArgs f d h)) of
                      Some er \<Rightarrow> Some er
                    | None \<Rightarrow> CmdError h)\<rparr>"
  by (auto simp: hostAfter_def getFileTask_def split: prod.splits option.splits)

lemma getFileTask_frame: "getFileTask e scp f d i h = Inr (h', s, p) \<Longrightarrow> cmd h' = cmd h \<and> args h' = args h"
  by (auto simp: getFileTask_def split: option.splits prod.splits)

lemma dispatch_hosts:
  assumes W: "\<And>i h. \<exists>h' s p. work i h = Inr (h', s, p) \<and> s \<noteq> []"
  shows "\<exists>out. dispatch work ds = Inr out \<and> length (HOSTS (shell out)) = length (HOSTS ds) \<and>
           (\<forall>j<length (HOSTS ds). HOSTS (shell out) ! j = hostAfter work j (HOSTS ds ! j)) \<and>
           result out = aggregate (HOSTS (shell out))"
proof -
  let ?n = "length (HOSTS ds)"
  have "\<exists>st'. batchLoop work (monitor ds) (maxBatch ds) ?n [0..<?n] (initial (HOSTS ds)) = Inr st' \<and>
          length (hosts st') = length (hosts (initial (HOSTS ds))) \<and>
          (\<forall>j<length (hosts (initial (HOSTS ds))). hosts st' ! j =
             (if j \<in> set [0..<?n] then hostAfter work j (hosts (initial (HOSTS ds)) ! j)
              else hosts (initial (HOSTS ds)) ! j))"
    by (rule batchLoop_hosts [OF W]) (simp_all add: initial_def)
  then obtain st' where r: "batchLoop work (monitor ds) (maxBatch ds) ?n [0..<?n] (initial (HOSTS ds)) = Inr st'"
    and len: "length (hosts st') = ?n"
    and pt: "\<forall>j<?n. hosts st' ! j = hostAfter work j (HOSTS ds ! j)"
    by (auto simp: initial_def)
  have "dispatch work ds = Inr (settle ds st')" using r by (simp add: dispatch_def)
  then show ?thesis using len pt by (intro exI [of _ "settle ds st'"]) (simp add: settle_def)
qed

lemma dispatch_batches:
  assumes W: "\<And>i h. Q h \<Longrightarrow> \<exists>h' m p. work i h = Inr (h', [m], p) \<and> Q h'"
    and Q: "\<forall>h\<in>set (HOSTS ds). Q h"
  shows "\<exists>out bs. dispatch work ds = Inr out \<and>
           batchedRun (max 1 (maxBatch ds)) (length (HOSTS ds)) out bs"
proof -
  let ?n = "length (HOSTS ds)"
  let ?st = "initial (HOSTS ds)"
  let ?w = "max 1 (maxBatch ds)"
  have "\<exists>st' bs T. batchLoop work (monitor ds) (maxBatch ds) ?n [0..<?n] ?st = Inr st' \<and>
        trace st' = trace ?st @ T \<and> map Launch [] @ T = batchTrace bs \<and>
        concat (map fst bs) = [] @ [0..<?n] \<and>
        (\<forall>(b, ms)\<in>set bs. length ms = length b \<and> 1 \<le> length b \<and> int (length b) \<le> ?w) \<and>
        cmdStatus st' = []"
    using Q by (intro batchLoop_batches [where Q = Q] W) (simp_all add: initial_def)
  then obtain st' bs where r: "batchLoop work (monitor ds) (maxBatch ds) ?n [0..<?n] ?st = Inr st'"
    and t: "trace st' = batchTrace bs" and c: "concat (map fst bs) = [0..<?n]"
    and ok: "\<forall>(b, ms)\<in>set bs. length ms = length b \<and> 1 \<le> length b \<and> int (length b) \<le> ?w"
    and em: "cmdStatus st' = []"
    by (auto simp: initial_def)
  have la: "list_all (\<lambda>(b, ms). length ms = length b \<and> 1 \<le> length b \<and> int (length b) \<le> ?w) bs"
    using ok by (simp add: list_all_iff)
  have fl: "\<And>k. 0 \<le> inFlight (take k (trace st')) \<and> inFlight (take k (trace st')) \<le> ?w"
    using inFlight_batchTrace [OF _ la] t by simp
  have "dispatch work ds = Inr (settle ds st')" using r by (simp add: dispatch_def)
  moreover have "batchedRun ?w ?n (settle ds st') bs"
    using t c la em fl by (simp add: batchedRun_def settle_def list_all_iff)
  ultimately show ?thesis by blast
qed

lemma dispatch_width:
  assumes "int (length (HOSTS ds)) \<le> m"
  shows "dispatch work (SetMaxBatch ds m) =
           withMaxBatch m (dispatch work (SetMaxBatch ds (int (length (HOSTS ds)))))"
proof -
  let ?n = "length (HOSTS ds)"
  have "batchLoop work (monitor ds) m ?n [0..<?n] (initial (HOSTS ds)) =
        batchLoop work (monitor ds) (int ?n) ?n [0..<?n] (initial (HOSTS ds))"
    using assms by (intro batchLoop_width) (simp_all add: initial_def)
  then show ?thesis
    by (cases "batchLoop work (monitor ds) (int ?n) ?n [0..<?n] (initial (HOSTS ds))")
       (simp_all add: dispatch_def SetMaxBatch_def withMaxBatch_def settle_def)
qed

lemma dispatch_single:
  assumes "int (length (HOSTS ds)) \<le> maxBatch ds" and "dispatch work ds = Inr out"
  shows "\<exists>ms. events out = map Launch [0..<length (HOSTS ds)] @ map Recv ms \<and>
              length ms = length (HOSTS ds)"
proof -
  let ?n = "length (HOSTS ds)"
  obtain st' where r: "batchLoop work (monitor ds) (maxBatch ds) ?n [0..<?n] (initial (HOSTS ds)) = Inr st'"
    and o: "out = settle ds st'"
    using assms(2) by (auto simp: dispatch_def split: sum.splits)
  have "\<exists>ms. trace st' = trace (initial (HOSTS ds)) @ map Launch [0..<?n] @ map Recv ms \<and>
        length ms = (if [0..<?n] = [] then 0 else runningCount (initial (HOSTS ds)) + length [0..<?n])"
    using assms(1) r by (intro batchLoop_single [where mb = "maxBatch ds" and n = ?n]) (simp_all add: initial_def)
  then show ?thesis using o by (auto simp: settle_def initial_def)
qed

lemma dispatch_frame:
  assumes P: "\<And>i h h' s p. work i h = Inr (h', s, p) \<Longrightarrow> cmd h' = cmd h \<and> args h' = args h"
    and D: "dispatch work ds = Inr out"
  shows "assignments (shell out) = assignments ds"
proof -
  obtain st' where r: "batchLoop work (monitor ds) (maxBatch ds) (length (HOSTS ds))
                          [0..<length (HOSTS ds)] (initial (HOSTS ds)) = Inr st'"
    and o: "out = settle ds st'"
    using D by (auto simp: dispatch_def split: sum.splits)
  have "map (\<lambda>h. (cmd h, args h)) (hosts st') = map (\<lambda>h. (cmd h, args h)) (hosts (initial (HOSTS ds)))"
    using batchLoop_frame [of work] P r by blast
  then show ?thesis using o by (simp add: assignments_def settle_def initial_def)
qed

lemma Execute_hosts:
  assumes "makeChan e (maxBatch ds) = None" and "lookPath e ''ssh'' = Some p"
  shows "\<exists>out. Execute e ds = Inr out \<and> length (HOSTS (shell out)) = length (HOSTS ds) \<and>
           (\<forall>j<length (HOSTS ds). HOSTS (shell out) ! j = hostAfter (runCMD e) j (HOSTS ds ! j)) \<and>
           result out = aggregate (HOSTS (shell out))"
  using dispatch_hosts [of "runCMD e" ds] runCMD_emits [OF assms(2)] assms(1)
  by (simp add: Execute_def)

lemma GetFile_hosts:
  assumes "makeChan e (maxBatch ds) = None" and "lookPath e ''scp'' = Some p"
  shows "\<exists>out. GetFile e ds f d = Inr out \<and> length (HOSTS (shell out)) = length (HOSTS ds) \<and>
           (\<forall>j<length (HOSTS ds). HOSTS (shell out) ! j = hostAfter (getFileTask e p f d) j (HOSTS ds ! j)) \<and>
           result out = aggregate (HOSTS (shell out))"
  using dispatch_hosts [of "getFileTask e p f d" ds] getFileTask_emits assms
  by (simp add: GetFile_def)

section \<open>The aggregate error: auxiliary facts\<close>













section \<open>The accessors: auxiliary facts\<close>

lemma GetHostStdout_unknown: "h \<notin> Name ` set hs \<Longrightarrow> GetHostStdout_hosts hs h = noOutput"
  by (induction hs) auto

lemma GetHostStdout_fresh: "GetHostStdout_hosts (buildHost ns) h = (if h \<in> set ns then [] else noOutput)"
  by (induction ns) (auto simp: buildHost_def)

lemma first_match_AddCommand:
  "i < length hs \<Longrightarrow> Name (hs ! i) = h \<Longrightarrow> (\<forall>j<i. Name (hs ! j) \<noteq> h) \<Longrightarrow>
   AddCommand_hosts hs h c a = (hs[i := (hs ! i)\<lparr>cmd := c, args := a\<rparr>], True)"
proof (induction hs arbitrary: i)
  case Nil
  then show ?case by simp
next
  case (Cons x xs)
  show ?case
  proof (cases i)
    case 0
    then show ?thesis using Cons.prems by simp
  next
    case (Suc k)
    have nx: "Name x \<noteq> h" using Cons.prems(3) Suc by auto
    have "\<forall>j<k. Name (xs ! j) \<noteq> h" using Cons.prems(3) Suc by auto
    then have "AddCommand_hosts xs h c a = (xs[k := (xs ! k)\<lparr>cmd := c, args := a\<rparr>], True)"
      using Cons.IH [of k] Cons.prems(1,2) Suc by simp
    then show ?thesis using nx Suc by simp
  qed
qed

lemma first_match_GetHostStdout:
  "i < length hs \<Longrightarrow> Name (hs ! i) = h \<Longrightarrow> (\<forall>j<i. Name (hs ! j) \<noteq> h) \<Longrightarrow>
   GetHostStdout_hosts hs h = Stdout (hs ! i)"
proof (induction hs arbitrary: i)
  case Nil
  then show ?case by simp
next
  case (Cons x xs)
  show ?case
  proof (cases i)
    case 0
    then show ?thesis using Cons.prems by simp
  next
    case (Suc k)
    have nx: "Name x \<noteq> h" using Cons.prems(3) Suc by auto
    have "\<forall>j<k. Name (xs ! j) \<noteq> h" using Cons.prems(3) Suc by auto
    then have "GetHostStdout_hosts xs h = Stdout (xs ! k)"
      using Cons.IH [of k] Cons.prems(1,2) Suc by simp
    then show ?thesis using nx Suc by simp
  qed
qed

lemma first_match_exists:
  "h \<in> Name ` set hs \<Longrightarrow> \<exists>i<length hs. Name (hs ! i) = h \<and> (\<forall>j<i. Name (hs ! j) \<noteq> h)"
proof (induction hs)
  case Nil
  then show ?case by simp
next
  case (Cons x xs)
  show ?case
  proof (cases "Name x = h")
    case True
    then show ?thesis by (intro exI [of _ 0]) simp
  next
    case False
    then have "h \<in> Name ` set xs" using Cons.prems by auto
    then obtain i where i: "i < length xs" "Name (xs ! i) = h" "\<forall>j<i. Name (xs ! j) \<noteq> h"
      using Cons.IH by blast
    have "\<forall>j<Suc i. Name ((x # xs) ! j) \<noteq> h"
    proof (intro allI impI)
      fix j assume "j < Suc i"
      then show "Name ((x # xs) ! j) \<noteq> h" using False i(3) by (cases j) simp_all
    qed
    then show ?thesis using i(1,2) by (intro exI [of _ "Suc i"]) simp
  qed
qed

lemma no_match_AddCommand: "h \<notin> Name ` set hs \<Longrightarrow> AddCommand_hosts hs h c a = (hs, False)"
  by (induction hs) auto

text \<open>The definitions that evaluating a dispatch call on a sample session unfolds.\<close>

lemmas run_defs = Execute_def GetFile_def makeChan_def dispatch_def settle_def initial_def launch_def
      drain_def batchFull_def runCMD_def getFileTask_def sshArgs_def scpArgs_def envOk_def envDown_def
      cluster_def single_def AddCommand_def New_def buildHost_def SetMaxBatch_def noCommandError_def

section \<open>The claims\<close>

subsection \<open>C1: a host without a command\<close>

text \<open>
  C1 (the code differs). The claim: for a host whose command is empty, \<open>runCMD\<close> records
  the error "no available command to execute", emits exactly one failure message and
  returns without running the secure-shell program. The code, at a fresh record and
  with a transport that fails: two messages are sent, \<open>ssh\<close> is run with the empty
  command, the captured output is stored and the recorded error is the one of \<open>ssh\<close>.
\<close>

theorem C1_empty_command_still_runs_ssh:
  "runCMD envDown 0 idle =
     Inr (\<lparr>Name = ''h1'', Stdout = ''refused'', cmd = [], args = [], CmdError = Some ''exit status 255''\<rparr>,
          [''ERROR: host h1 has no available command to execute'',
           ''ERROR: Failed to exec command on host h1: exit status 255''],
          [[''/usr/bin/ssh'', ''-o'', ''StrictHostKeyChecking=no'', ''-o'', ''BatchMode=yes'', ''h1'', '''']])"
  by (simp add: runCMD_def envDown_def idle_def sshArgs_def noCommandError_def)

subsection \<open>C2: the error of a record after a dispatch\<close>

text \<open>
  C2, as stated, fails: the host of \<open>single\<close> fails in a first \<open>Execute\<close> and succeeds in
  a second one (the run of \<open>ssh\<close> returns no error), and its \<open>CmdError\<close> is still set
  after the second call.
\<close>

theorem C2_counterexample:
  "hostsOf (Execute envOk (shellOf (Execute envDown single))) =
     Inr [\<lparr>Name = ''h1'', Stdout = ''ok'', cmd = ''uptime'', args = [], CmdError = Some ''exit status 255''\<rparr>] \<and>
   run envOk 0 ''/usr/bin/ssh'' (sshArgs (hd (HOSTS single))) = (''ok'', None)"
  by (simp add: hostsOf_def shellOf_def Execute_def makeChan_def dispatch_def settle_def
      initial_def launch_def drain_def batchFull_def runCMD_def sshArgs_def envOk_def envDown_def
      single_def AddCommand_def New_def buildHost_def)

text \<open>
  C2 (amended). The work item of \<open>Execute\<close> for a host with a command, and the work item
  of \<open>GetFile\<close> for any host, leaves \<open>CmdError\<close> set to the error of its run when the run
  failed, and as it was before when the run succeeded: a success does not clear the
  error of an earlier dispatch, so \<open>CmdError\<close> is absent after a success exactly when it
  was absent before. When the status channel can be made and the program is found,
  \<open>GetFile\<close> returns, and \<open>Execute\<close> returns on a session in which every host has a
  command, and each record then holds the \<open>CmdError\<close> its work item left. Nothing is
  said of \<open>Execute\<close> on a session with a host without a command.
\<close>

theorem C2_lastError_after_dispatch:
  assumes "makeChan e (maxBatch ds) = None" and "j < length (HOSTS ds)"
  shows "(lookPath e ''ssh'' = Some ssh \<longrightarrow>
            (cmd h \<noteq> [] \<longrightarrow>
               CmdError (hostAfter (runCMD e) i h) =
                 (case snd (run e i ssh (sshArgs h)) of
                    Some er \<Rightarrow> Some er | None \<Rightarrow> CmdError h)) \<and>
            ((\<forall>x\<in>set (HOSTS ds). cmd x \<noteq> []) \<longrightarrow>
               (\<exists>out. Execute e ds = Inr out \<and>
                  CmdError (HOSTS (shell out) ! j) =
                    (case snd (run e j ssh (sshArgs (HOSTS ds ! j))) of
                       Some er \<Rightarrow> Some er | None \<Rightarrow> CmdError (HOSTS ds ! j))))) \<and>
         CmdError (hostAfter (getFileTask e scp f d) i h) =
           (case snd (run e i scp (scpArgs f d h)) of
              Some er \<Rightarrow> Some er | None \<Rightarrow> CmdError h) \<and>
         (lookPath e ''scp'' = Some scp \<longrightarrow>
            (\<exists>out. GetFile e ds f d = Inr out \<and>
               CmdError (HOSTS (shell out) ! j) =
                 (case snd (run e j scp (scpArgs f d (HOSTS ds ! j))) of
                    Some er \<Rightarrow> Some er | None \<Rightarrow> CmdError (HOSTS ds ! j))))"
proof -
  have w: "CmdError (hostAfter (runCMD e) k x) =
             (case snd (run e k ssh (sshArgs x)) of Some er \<Rightarrow> Some er | None \<Rightarrow> CmdError x)"
    if "lookPath e ''ssh'' = Some ssh" and "cmd x \<noteq> []" for k x
    using that by (simp add: runCMD_after)
  have x: "\<exists>out. Execute e ds = Inr out \<and>
                  CmdError (HOSTS (shell out) ! j) =
                    (case snd (run e j ssh (sshArgs (HOSTS ds ! j))) of
                       Some er \<Rightarrow> Some er | None \<Rightarrow> CmdError (HOSTS ds ! j))"
    if s: "lookPath e ''ssh'' = Some ssh" and c: "\<forall>x\<in>set (HOSTS ds). cmd x \<noteq> []"
  proof -
    obtain out where o: "Execute e ds = Inr out"
      and hx: "HOSTS (shell out) ! j = hostAfter (runCMD e) j (HOSTS ds ! j)"
      using Execute_hosts [OF assms(1) s] assms(2) by blast
    have "cmd (HOSTS ds ! j) \<noteq> []" using c assms(2) by simp
    then show ?thesis using o hx w [OF s] by auto
  qed
  have g: "\<exists>out. GetFile e ds f d = Inr out \<and>
               CmdError (HOSTS (shell out) ! j) =
                 (case snd (run e j scp (scpArgs f d (HOSTS ds ! j))) of
                    Some er \<Rightarrow> Some er | None \<Rightarrow> CmdError (HOSTS ds ! j))"
    if s: "lookPath e ''scp'' = Some scp"
  proof -
    obtain out where o: "GetFile e ds f d = Inr out"
      and hg: "HOSTS (shell out) ! j = hostAfter (getFileTask e scp f d) j (HOSTS ds ! j)"
      using GetFile_hosts [OF assms(1) s] assms(2) by blast
    show ?thesis using o hg by (auto simp: getFileTask_after)
  qed
  have t: "CmdError (hostAfter (getFileTask e scp f d) i h) =
           (case snd (run e i scp (scpArgs f d h)) of
              Some er \<Rightarrow> Some er | None \<Rightarrow> CmdError h)"
    by (simp add: getFileTask_after)
  show ?thesis using w x g t by blast
qed

theorem C2_lastError_after_dispatch_witness:
  "CmdError (hostAfter (runCMD envDown) 0 (idle\<lparr>cmd := ''uptime''\<rparr>)) = Some ''exit status 255'' \<and>
   CmdError (hostAfter (runCMD envOk) 0 (idle\<lparr>cmd := ''uptime'', CmdError := Some ''old''\<rparr>)) = Some ''old'' \<and>
   (\<exists>out. Execute envDown single = Inr out \<and>
       CmdError (HOSTS (shell out) ! 0) = Some ''exit status 255'') \<and>
   (\<exists>out. GetFile envOk single ''/etc/hosts'' ''/tmp'' = Inr out \<and>
       CmdError (HOSTS (shell out) ! 0) = None)"
proof -
  have a: "makeChan envDown (maxBatch single) = None" "makeChan envOk (maxBatch single) = None"
    "0 < length (HOSTS single)"
    by (simp_all add: makeChan_def envDown_def envOk_def single_def AddCommand_def
        New_def buildHost_def)
  have b: "lookPath envDown ''ssh'' = Some ''/usr/bin/ssh''" "lookPath envOk ''ssh'' = Some ''/usr/bin/ssh''"
    "lookPath envOk ''scp'' = Some ''/usr/bin/scp''"
    by (simp_all add: envDown_def envOk_def)
  have c: "\<forall>x\<in>set (HOSTS single). cmd x \<noteq> []" "CmdError (HOSTS single ! 0) = None"
    "cmd (idle\<lparr>cmd := ''uptime''\<rparr>) \<noteq> []" "cmd (idle\<lparr>cmd := ''uptime'', CmdError := Some ''old''\<rparr>) \<noteq> []"
    by (simp_all add: single_def AddCommand_def New_def buildHost_def)
  have d: "snd (run envDown 0 ''/usr/bin/ssh'' (sshArgs (HOSTS single ! 0))) = Some ''exit status 255''"
    "snd (run envOk 0 ''/usr/bin/scp'' (scpArgs ''/etc/hosts'' ''/tmp'' (HOSTS single ! 0))) = None"
    "snd (run envDown 0 ''/usr/bin/ssh'' (sshArgs (idle\<lparr>cmd := ''uptime''\<rparr>))) = Some ''exit status 255''"
    "snd (run envOk 0 ''/usr/bin/ssh'' (sshArgs (idle\<lparr>cmd := ''uptime'', CmdError := Some ''old''\<rparr>))) = None"
    by (simp_all add: envDown_def envOk_def)
  show ?thesis
    using C2_lastError_after_dispatch [OF a(1) a(3), where ssh = "''/usr/bin/ssh''" and i = 0
            and h = "idle\<lparr>cmd := ''uptime''\<rparr>"]
          C2_lastError_after_dispatch [OF a(2) a(3), where ssh = "''/usr/bin/ssh''" and i = 0
            and h = "idle\<lparr>cmd := ''uptime'', CmdError := Some ''old''\<rparr>"
            and scp = "''/usr/bin/scp''" and f = "''/etc/hosts''" and d = "''/tmp''"]
          b c d
    by auto
qed

subsection \<open>C3: the aggregate error\<close>




subsection \<open>C4: synchronous batches\<close>

text \<open>
  C4, as stated, fails: with \<open>maxBatch = 0\<close>, which \<open>SetMaxBatch\<close> accepts, and one host
  with a command, the call launches the work item and then receives its message, so
  one work item is in flight, which is more than \<open>maxBatch\<close>.
\<close>

theorem C4_counterexample:
  "eventsOf (Execute envOk (SetMaxBatch single 0)) =
     Inr [Launch 0, Recv ''INFO: completed running command on host h1''] \<and>
   inFlight [Launch 0] = 1 \<and> maxBatch (SetMaxBatch single 0) = 0"
  by (simp add: eventsOf_def Execute_def makeChan_def dispatch_def settle_def
      initial_def launch_def drain_def batchFull_def runCMD_def sshArgs_def envOk_def single_def
      AddCommand_def New_def buildHost_def SetMaxBatch_def)

text \<open>
  C4 (amended). When the status channel can be made (\<open>maxBatch\<close> is not negative and not
  beyond what \<open>make\<close> accepts and the memory holds), the program is found and every work
  item sends exactly one message (for \<open>Execute\<close>: every host has a command; for
  \<open>GetFile\<close>: always), the call returns and its trace is a sequence of batches: each
  batch launches at least one and at most \<open>max 1 maxBatch\<close> work items and then receives
  exactly as many messages as it launched, before the next batch launches anything; the
  hosts are launched in session order; no message is left in the channel; and at every
  moment at most \<open>max 1 maxBatch\<close> work items are in flight, which is \<open>maxBatch\<close> whenever
  \<open>maxBatch\<close> is at least one.
\<close>

theorem C4_synchronous_batches:
  assumes "makeChan e (maxBatch ds) = None"
  shows "(lookPath e ''ssh'' = Some ssh \<longrightarrow> (\<forall>h\<in>set (HOSTS ds). cmd h \<noteq> []) \<longrightarrow>
            (\<exists>out bs. Execute e ds = Inr out \<and>
                batchedRun (max 1 (maxBatch ds)) (length (HOSTS ds)) out bs)) \<and>
         (lookPath e ''scp'' = Some scp \<longrightarrow>
            (\<exists>out bs. GetFile e ds f d = Inr out \<and>
                batchedRun (max 1 (maxBatch ds)) (length (HOSTS ds)) out bs))"
proof -
  have x: "\<exists>out bs. Execute e ds = Inr out \<and>
                batchedRun (max 1 (maxBatch ds)) (length (HOSTS ds)) out bs"
    if s: "lookPath e ''ssh'' = Some ssh" and c: "\<forall>h\<in>set (HOSTS ds). cmd h \<noteq> []"
    using dispatch_batches [of "\<lambda>h. cmd h \<noteq> []" "runCMD e" ds] runCMD_one [OF s] c assms
    by (simp add: Execute_def)
  have g: "\<exists>out bs. GetFile e ds f d = Inr out \<and>
                batchedRun (max 1 (maxBatch ds)) (length (HOSTS ds)) out bs"
    if s: "lookPath e ''scp'' = Some scp"
    using dispatch_batches [of "\<lambda>h. True" "getFileTask e scp f d" ds] getFileTask_one assms s
    by (simp add: GetFile_def)
  show ?thesis using x g by blast
qed

theorem C4_synchronous_batches_witness:
  "makeChan envOk (maxBatch (SetMaxBatch cluster 2)) = None \<and>
   lookPath envOk ''ssh'' = Some ''/usr/bin/ssh'' \<and> lookPath envOk ''scp'' = Some ''/usr/bin/scp'' \<and>
   list_all (\<lambda>h. cmd h \<noteq> []) (HOSTS (SetMaxBatch cluster 2)) \<and>
   (\<exists>out bs. Execute envOk (SetMaxBatch cluster 2) = Inr out \<and> batchedRun 2 3 out bs \<and>
      map launched (events out) = [Some 0, Some 1, None, None, Some 2, None]) \<and>
   (\<exists>out bs. GetFile envOk (SetMaxBatch cluster 2) ''/etc/hosts'' ''/tmp'' = Inr out \<and>
      batchedRun 2 3 out bs)"
proof -
  let ?ds = "SetMaxBatch cluster 2"
  have a: "makeChan envOk (maxBatch ?ds) = None"
    by (simp add: makeChan_def envOk_def SetMaxBatch_def)
  have b: "lookPath envOk ''ssh'' = Some ''/usr/bin/ssh''" "lookPath envOk ''scp'' = Some ''/usr/bin/scp''"
    by (simp_all add: envOk_def)
  have c: "list_all (\<lambda>h. cmd h \<noteq> []) (HOSTS ?ds)"
    by (simp add: cluster_def AddCommand_def New_def buildHost_def SetMaxBatch_def)
  have c': "\<forall>h\<in>set (HOSTS ?ds). cmd h \<noteq> []" using c by (simp add: list_all_iff)
  have n: "max 1 (maxBatch ?ds) = 2" "length (HOSTS ?ds) = 3"
    by (simp_all add: cluster_def AddCommand_def New_def buildHost_def SetMaxBatch_def)
  have x: "shapeOf (Execute envOk ?ds) = Inr [Some 0, Some 1, None, None, Some 2, None]"
    by (simp add: shapeOf_def run_defs)
  show ?thesis
    using C4_synchronous_batches [OF a, where ssh = "''/usr/bin/ssh''" and scp = "''/usr/bin/scp''"
            and f = "''/etc/hosts''" and d = "''/tmp''"]
          a b c c' n x
    by (auto simp: shapeOf_def)
qed

text \<open>The same session with the batch size zero: three batches of one work item.\<close>

lemma maxBatch_zero_one_by_one:
  "shapeOf (Execute envOk (SetMaxBatch cluster 0)) = Inr [Some 0, None, Some 1, None, Some 2, None]"
  by (simp add: shapeOf_def run_defs)

text \<open>
  A size that \<open>make\<close> refuses ends both calls in its panic, before anything is launched,
  whatever the memory.
\<close>

lemma maxBatch_out_of_range_panics:
  "maxBatch ds < 0 \<or> 2 ^ 44 \<le> maxBatch ds \<Longrightarrow>
   Execute e ds = Inl MakeChanFailed \<and> GetFile e ds f d = Inl MakeChanFailed"
  by (auto simp: Execute_def GetFile_def makeChan_def)

subsection \<open>C5: the batch size beyond the number of hosts\<close>

text \<open>
  C5, as stated, fails: for the three hosts of \<open>cluster\<close> the batch size \<open>2 ^ 62\<close> is at
  least the number of hosts, and \<open>Execute\<close> ends in the panic of \<open>make\<close>, where with the
  batch size three it returns without an error.
\<close>

theorem C5_counterexample:
  "int (length (HOSTS cluster)) \<le> 2 ^ 62 \<and>
   Execute envOk (SetMaxBatch cluster (2 ^ 62)) = Inl MakeChanFailed \<and>
   resultOf (Execute envOk (SetMaxBatch cluster (int (length (HOSTS cluster))))) = Inr None"
  by (simp add: resultOf_def run_defs aggregate_def)

text \<open>
  C5 (amended). For a session of \<open>N\<close> hosts and a batch size \<open>m\<close> of at least \<open>N\<close> with
  which the status channel can be made: a call that returns has launched all \<open>N\<close> work
  items and then received \<open>N\<close> messages, in one batch, and the calls return when their
  program is found; and when every work item sends exactly one message (\<open>GetFile\<close>:
  always; \<open>Execute\<close>: every host has a command) the call gives what it gives with the
  batch size \<open>N\<close>: the same records, the same aggregate error, the same printed lines,
  the same trace, the same messages left in the channel and the same external runs (or
  the same fatal end), the stored batch size apart.
\<close>

theorem C5_width_invariance:
  assumes "int (length (HOSTS ds)) \<le> m" and "makeChan e m = None"
  shows "GetFile e (SetMaxBatch ds m) f d =
           withMaxBatch m (GetFile e (SetMaxBatch ds (int (length (HOSTS ds)))) f d) \<and>
         ((\<forall>h\<in>set (HOSTS ds). cmd h \<noteq> []) \<longrightarrow>
            Execute e (SetMaxBatch ds m) =
              withMaxBatch m (Execute e (SetMaxBatch ds (int (length (HOSTS ds)))))) \<and>
         (\<forall>out. Execute e (SetMaxBatch ds m) = Inr out \<or> GetFile e (SetMaxBatch ds m) f d = Inr out \<longrightarrow>
            (\<exists>ms. events out = map Launch [0..<length (HOSTS ds)] @ map Recv ms \<and>
                  length ms = length (HOSTS ds))) \<and>
         (lookPath e ''ssh'' \<noteq> None \<longrightarrow> (\<exists>out. Execute e (SetMaxBatch ds m) = Inr out)) \<and>
         (lookPath e ''scp'' \<noteq> None \<longrightarrow> (\<exists>out. GetFile e (SetMaxBatch ds m) f d = Inr out))"
proof -
  have mk: "makeChan e (int (length (HOSTS ds))) = None"
    using assms by (auto simp: makeChan_def split: if_splits)
  have mm: "makeChan e (maxBatch (SetMaxBatch ds m)) = None"
    using assms(2) by (simp add: SetMaxBatch_def)
  have a: "Execute e (SetMaxBatch ds m) =
           withMaxBatch m (Execute e (SetMaxBatch ds (int (length (HOSTS ds)))))"
    using dispatch_width [OF assms(1), of "runCMD e"] assms(2) mk
    by (simp add: Execute_def SetMaxBatch_def)
  have b: "GetFile e (SetMaxBatch ds m) f d =
           withMaxBatch m (GetFile e (SetMaxBatch ds (int (length (HOSTS ds)))) f d)"
  proof (cases "lookPath e ''scp''")
    case None
    then show ?thesis using assms(2) mk by (simp add: GetFile_def SetMaxBatch_def withMaxBatch_def)
  next
    case (Some scp)
    then show ?thesis using dispatch_width [OF assms(1), of "getFileTask e scp f d"] assms(2) mk
      by (simp add: GetFile_def SetMaxBatch_def)
  qed
  have le: "int (length (HOSTS (SetMaxBatch ds m))) \<le> maxBatch (SetMaxBatch ds m)"
    using assms(1) by (simp add: SetMaxBatch_def)
  have c: "\<exists>ms. events out = map Launch [0..<length (HOSTS ds)] @ map Recv ms \<and>
                  length ms = length (HOSTS ds)"
    if "Execute e (SetMaxBatch ds m) = Inr out \<or> GetFile e (SetMaxBatch ds m) f d = Inr out" for out
  proof -
    from that have "\<exists>work. dispatch work (SetMaxBatch ds m) = Inr out"
      by (auto simp: Execute_def GetFile_def split: option.splits)
    then obtain work where "dispatch work (SetMaxBatch ds m) = Inr out" by blast
    from dispatch_single [OF le this] show ?thesis by (simp add: SetMaxBatch_def)
  qed
  have d: "\<exists>out. Execute e (SetMaxBatch ds m) = Inr out" if "lookPath e ''ssh'' \<noteq> None"
  proof -
    from that obtain p where "lookPath e ''ssh'' = Some p" by auto
    then show ?thesis using Execute_hosts [OF mm] by blast
  qed
  have g: "\<exists>out. GetFile e (SetMaxBatch ds m) f d = Inr out" if "lookPath e ''scp'' \<noteq> None"
  proof -
    from that obtain p where "lookPath e ''scp'' = Some p" by auto
    then show ?thesis using GetFile_hosts [OF mm] by blast
  qed
  show ?thesis using a b c d g by blast
qed

theorem C5_width_invariance_witness:
  "int (length (HOSTS cluster)) \<le> 50 \<and> makeChan envOk 50 = None \<and>
   list_all (\<lambda>h. cmd h \<noteq> []) (HOSTS cluster) \<and>
   Execute envOk (SetMaxBatch cluster 50) =
     withMaxBatch 50 (Execute envOk (SetMaxBatch cluster (int (length (HOSTS cluster))))) \<and>
   GetFile envOk (SetMaxBatch cluster 50) ''/etc/hosts'' ''/tmp'' =
     withMaxBatch 50 (GetFile envOk (SetMaxBatch cluster (int (length (HOSTS cluster)))) ''/etc/hosts'' ''/tmp'') \<and>
   shapeOf (Execute envOk (SetMaxBatch cluster 50)) = Inr [Some 0, Some 1, Some 2, None, None, None]"
proof -
  have a: "int (length (HOSTS cluster)) \<le> 50"
    by (simp add: cluster_def AddCommand_def New_def buildHost_def)
  have k: "makeChan envOk 50 = None"
    by (simp add: makeChan_def envOk_def)
  have c: "list_all (\<lambda>h. cmd h \<noteq> []) (HOSTS cluster)"
    by (simp add: cluster_def AddCommand_def New_def buildHost_def)
  have c': "\<forall>h\<in>set (HOSTS cluster). cmd h \<noteq> []" using c by (simp add: list_all_iff)
  have x: "shapeOf (Execute envOk (SetMaxBatch cluster 50)) = Inr [Some 0, Some 1, Some 2, None, None, None]"
    by (simp add: shapeOf_def run_defs)
  show ?thesis
    using C5_width_invariance [OF a k, of "''/etc/hosts''" "''/tmp''"] a k c c' x by blast
qed

subsection \<open>C6: a host without a command, dispatched twice\<close>

text \<open>
  C6 (the code differs). The claim: a host with no command, dispatched twice, has the
  same error recorded after each dispatch, and its captured output stays empty. The
  work item that each dispatch launches for such a host is \<open>runCMD\<close>. Run to its end on
  a fresh record with a transport that fails, and again on the record it left with a
  transport that succeeds, it stores the output of \<open>ssh\<close> each time (\<open>refused\<close>, then
  \<open>ok\<close>) and leaves first the error of \<open>ssh\<close> and then "no available command to
  execute".
\<close>

theorem C6_idle_host_work_item_twice:
  "runCMD envDown 0 idle =
     Inr (\<lparr>Name = ''h1'', Stdout = ''refused'', cmd = [], args = [], CmdError = Some ''exit status 255''\<rparr>,
          [''ERROR: host h1 has no available command to execute'',
           ''ERROR: Failed to exec command on host h1: exit status 255''],
          [[''/usr/bin/ssh'', ''-o'', ''StrictHostKeyChecking=no'', ''-o'', ''BatchMode=yes'', ''h1'', []]]) \<and>
   runCMD envOk 0
       \<lparr>Name = ''h1'', Stdout = ''refused'', cmd = [], args = [], CmdError = Some ''exit status 255''\<rparr> =
     Inr (\<lparr>Name = ''h1'', Stdout = ''ok'', cmd = [], args = [],
            CmdError = Some ''no available command to execute''\<rparr>,
          [''ERROR: host h1 has no available command to execute'',
           ''INFO: completed running command on host h1''],
          [[''/usr/bin/ssh'', ''-o'', ''StrictHostKeyChecking=no'', ''-o'', ''BatchMode=yes'', ''h1'', []]])"
  by (simp add: runCMD_def envDown_def envOk_def idle_def sshArgs_def noCommandError_def)

subsection \<open>C7: the work function of GetFile\<close>

text \<open>
  C7, as stated, fails: at a failing copy the work function of \<open>GetFile\<close> leaves
  \<open>Stdout\<close> empty although the copy printed \<open>refused\<close>, where \<open>runCMD\<close> stores the
  output of the same failing transport.
\<close>

theorem C7_counterexample:
  "getFileTask envDown ''/usr/bin/scp'' ''/etc/hosts'' ''/tmp'' 0 idle =
     Inr (\<lparr>Name = ''h1'', Stdout = [], cmd = [], args = [], CmdError = Some ''exit status 255''\<rparr>,
          [''h1: ERROR refused: exit status 255''],
          [[''/usr/bin/scp'', ''-o'', ''BatchMode=yes'', ''-o'', ''StrictHostKeyChecking=no'',
            ''h1:/etc/hosts'', ''/tmp'']]) \<and>
   run envDown 0 ''/usr/bin/scp'' (scpArgs ''/etc/hosts'' ''/tmp'' idle) = (''refused'', Some ''exit status 255'') \<and>
   Stdout (hostAfter (runCMD envDown) 0 (idle\<lparr>cmd := ''uptime''\<rparr>)) = ''refused''"
  by (simp add: getFileTask_def scpArgs_def envDown_def idle_def hostAfter_def runCMD_def sshArgs_def)

text \<open>
  C7 (amended). The work function of \<open>GetFile\<close> sets \<open>CmdError\<close> to the error of the copy
  when the copy fails and leaves it as it was when the copy succeeds, sends exactly one
  status message (the identity, the captured output and the error text on failure, the
  identity on success) and writes no other field: the captured output is not stored.
  For a host with a command and the same result of the transport, \<open>runCMD\<close> treats
  \<open>CmdError\<close> in the same way, sends one message, and stores the captured output.
\<close>

theorem C7_getFileTask_record:
  assumes "run e i scp (scpArgs f d h) = (out, err)"
  shows "getFileTask e scp f d i h =
           Inr (h\<lparr>CmdError := (case err of Some er \<Rightarrow> Some er | None \<Rightarrow> CmdError h)\<rparr>,
                [case err of Some er \<Rightarrow> Name h @ '': ERROR '' @ out @ '': '' @ er
                           | None \<Rightarrow> Name h @ '': SUCCESS''],
                [scp # scpArgs f d h]) \<and>
         (cmd h \<noteq> [] \<longrightarrow> lookPath e ''ssh'' = Some ssh \<longrightarrow> run e i ssh (sshArgs h) = (out, err) \<longrightarrow>
            runCMD e i h =
              Inr (h\<lparr>Stdout := out, CmdError := (case err of Some er \<Rightarrow> Some er | None \<Rightarrow> CmdError h)\<rparr>,
                   [case err of Some er \<Rightarrow> ''ERROR: Failed to exec command on host '' @ Name h @ '': '' @ er
                              | None \<Rightarrow> ''INFO: completed running command on host '' @ Name h],
                   [ssh # sshArgs h]))"
  using assms by (auto simp: getFileTask_def runCMD_def split: option.splits)

theorem C7_getFileTask_record_witness:
  "getFileTask envOk ''/usr/bin/scp'' ''/etc/hosts'' ''/tmp'' 0 (idle\<lparr>cmd := ''uptime''\<rparr>) =
     Inr (\<lparr>Name = ''h1'', Stdout = [], cmd = ''uptime'', args = [], CmdError = None\<rparr>,
          [''h1: SUCCESS''],
          [[''/usr/bin/scp'', ''-o'', ''BatchMode=yes'', ''-o'', ''StrictHostKeyChecking=no'',
            ''h1:/etc/hosts'', ''/tmp'']]) \<and>
   runCMD envOk 0 (idle\<lparr>cmd := ''uptime''\<rparr>) =
     Inr (\<lparr>Name = ''h1'', Stdout = ''ok'', cmd = ''uptime'', args = [], CmdError = None\<rparr>,
          [''INFO: completed running command on host h1''],
          [[''/usr/bin/ssh'', ''-o'', ''StrictHostKeyChecking=no'', ''-o'', ''BatchMode=yes'',
            ''h1'', ''uptime'']])"
proof -
  let ?h = "idle\<lparr>cmd := ''uptime''\<rparr>"
  have a: "run envOk 0 ''/usr/bin/scp'' (scpArgs ''/etc/hosts'' ''/tmp'' ?h) = (''ok'', None)"
    by (simp add: envOk_def)
  have b: "cmd ?h \<noteq> []" "lookPath envOk ''ssh'' = Some ''/usr/bin/ssh''"
    "run envOk 0 ''/usr/bin/ssh'' (sshArgs ?h) = (''ok'', None)"
    by (simp_all add: envOk_def)
  show ?thesis
    using C7_getFileTask_record [OF a, of "''/usr/bin/ssh''"] b
    by (simp add: idle_def scpArgs_def sshArgs_def)
qed

subsection \<open>C8: the output of an unknown host\<close>

text \<open>
  C8, as stated, fails: the only host of a fresh session never ran, and
  \<open>GetHostStdout\<close> returns its empty \<open>Stdout\<close>, not the bytes "no output".
\<close>

theorem C8_counterexample:
  "GetHostStdout (New [''h1'']) ''h1'' = [] \<and> GetHostStdout (New [''h1'']) ''h1'' \<noteq> noOutput"
  by (simp add: GetHostStdout_def New_def buildHost_def noOutput_def)

text \<open>
  C8 (amended). For an identity that no record of the session carries, \<open>GetHostStdout\<close>
  returns the bytes "no output"; for the identity of a record of a newly built session
  (a host that never ran) it returns that record's captured output, which is empty.
  The function is total: no input makes it fail.
\<close>

theorem C8_GetHostStdout_sentinel:
  "(h \<notin> Name ` set (HOSTS ds) \<longrightarrow> GetHostStdout ds h = ''no output'') \<and>
   (h \<in> set ns \<longrightarrow> GetHostStdout (New ns) h = [])"
  using GetHostStdout_unknown [of h "HOSTS ds"] GetHostStdout_fresh [of ns h]
  by (simp add: GetHostStdout_def New_def noOutput_def)

theorem C8_GetHostStdout_sentinel_witness:
  "''h9'' \<notin> Name ` set (HOSTS cluster) \<and> GetHostStdout cluster ''h9'' = ''no output'' \<and>
   ''h1'' \<in> set [''h1'', ''h2''] \<and> GetHostStdout (New [''h1'', ''h2'']) ''h1'' = []"
proof -
  have a: "''h9'' \<notin> Name ` set (HOSTS cluster)"
    by (simp add: cluster_def AddCommand_def New_def buildHost_def)
  have b: "''h1'' \<in> set [''h1'', ''h2'']" by simp
  show ?thesis
    using C8_GetHostStdout_sentinel [of "''h9''" cluster "[]"]
          C8_GetHostStdout_sentinel [of "''h1''" cluster "[''h1'', ''h2'']"] a b by blast
qed

subsection \<open>C9: assignment\<close>

text \<open>
  C9. When some record carries the identity \<open>h\<close>, \<open>AddCommand\<close> returns true and the
  session differs from the old one in one record of that identity, whose command and
  arguments are the given ones; when no record carries it, \<open>AddCommand\<close> returns false
  and the session is unchanged. \<open>Execute\<close>, \<open>GetFile\<close>, \<open>EnableMonitoring\<close>,
  \<open>DisableMonitoring\<close> and \<open>SetMaxBatch\<close> leave the command and the arguments of every
  record as they were. (\<open>ExecuteAll\<close> assigns through \<open>AddCommand\<close>; \<open>SetupDistShell\<close>
  changes no record: it builds a new list of records from a list of names.)
\<close>

theorem C9_AddCommand_assigns:
  "(h \<in> Name ` set (HOSTS ds) \<longrightarrow>
      snd (AddCommand ds h c a) \<and>
      (\<exists>i<length (HOSTS ds). Name (HOSTS ds ! i) = h \<and>
         fst (AddCommand ds h c a) = ds\<lparr>HOSTS := (HOSTS ds)[i := (HOSTS ds ! i)\<lparr>cmd := c, args := a\<rparr>]\<rparr>)) \<and>
   (h \<notin> Name ` set (HOSTS ds) \<longrightarrow> AddCommand ds h c a = (ds, False)) \<and>
   (\<forall>out. Execute e ds = Inr out \<or> GetFile e ds f d = Inr out \<longrightarrow>
      assignments (shell out) = assignments ds) \<and>
   assignments (EnableMonitoring ds) = assignments ds \<and>
   assignments (DisableMonitoring ds) = assignments ds \<and>
   assignments (SetMaxBatch ds n) = assignments ds \<and>
   HOSTS (SetupDistShell ds ns) = buildHost ns"
proof -
  have a: "snd (AddCommand ds h c a) \<and>
      (\<exists>i<length (HOSTS ds). Name (HOSTS ds ! i) = h \<and>
         fst (AddCommand ds h c a) = ds\<lparr>HOSTS := (HOSTS ds)[i := (HOSTS ds ! i)\<lparr>cmd := c, args := a\<rparr>]\<rparr>)"
    if hin: "h \<in> Name ` set (HOSTS ds)"
  proof -
    obtain i where i: "i < length (HOSTS ds)" "Name (HOSTS ds ! i) = h" "\<forall>j<i. Name (HOSTS ds ! j) \<noteq> h"
      using first_match_exists [OF hin] by blast
    have "AddCommand_hosts (HOSTS ds) h c a = ((HOSTS ds)[i := (HOSTS ds ! i)\<lparr>cmd := c, args := a\<rparr>], True)"
      using first_match_AddCommand [OF i] .
    then show ?thesis using i(1,2) by (auto simp: AddCommand_def)
  qed
  have b: "AddCommand ds h c a = (ds, False)" if "h \<notin> Name ` set (HOSTS ds)"
    using no_match_AddCommand [OF that] by (simp add: AddCommand_def)
  have x: "assignments (shell out) = assignments ds"
    if "Execute e ds = Inr out \<or> GetFile e ds f d = Inr out" for out
    using that
  proof
    assume "Execute e ds = Inr out"
    then have "dispatch (runCMD e) ds = Inr out" by (simp add: Execute_def split: option.splits)
    then show ?thesis using dispatch_frame [of "runCMD e" ds out] runCMD_frame by blast
  next
    assume "GetFile e ds f d = Inr out"
    then obtain scp where "dispatch (getFileTask e scp f d) ds = Inr out"
      by (auto simp: GetFile_def split: option.splits)
    then show ?thesis using dispatch_frame [of "getFileTask e scp f d" ds out] getFileTask_frame by blast
  qed
  have s: "assignments (EnableMonitoring ds) = assignments ds"
    "assignments (DisableMonitoring ds) = assignments ds"
    "assignments (SetMaxBatch ds n) = assignments ds"
    by (simp_all add: assignments_def EnableMonitoring_def DisableMonitoring_def SetMaxBatch_def)
  have u: "HOSTS (SetupDistShell ds ns) = buildHost ns"
    by (simp add: SetupDistShell_def EnableMonitoring_def SetMaxBatch_def)
  show ?thesis using a b x s u by blast
qed

theorem C9_AddCommand_assigns_witness:
  "''host2'' \<in> Name ` set (HOSTS cluster) \<and> snd (AddCommand cluster ''host2'' ''ls'' [''-l'']) \<and>
   (\<exists>i<length (HOSTS cluster). Name (HOSTS cluster ! i) = ''host2'' \<and>
      fst (AddCommand cluster ''host2'' ''ls'' [''-l'']) =
        cluster\<lparr>HOSTS := (HOSTS cluster)[i := (HOSTS cluster ! i)\<lparr>cmd := ''ls'', args := [''-l'']\<rparr>]\<rparr>) \<and>
   ''host9'' \<notin> Name ` set (HOSTS cluster) \<and> AddCommand cluster ''host9'' ''ls'' [''-l''] = (cluster, False) \<and>
   (\<exists>out. Execute envDown cluster = Inr out \<and> assignments (shell out) = assignments cluster)"
proof -
  have a: "''host2'' \<in> Name ` set (HOSTS cluster)" "''host9'' \<notin> Name ` set (HOSTS cluster)"
    by (simp_all add: cluster_def AddCommand_def New_def buildHost_def)
  have m: "makeChan envDown (maxBatch cluster) = None"
    by (simp add: makeChan_def envDown_def cluster_def AddCommand_def New_def)
  have b: "lookPath envDown ''ssh'' = Some ''/usr/bin/ssh''" by (simp add: envDown_def)
  obtain out where x: "Execute envDown cluster = Inr out" using Execute_hosts [OF m b] by blast
  show ?thesis
    using C9_AddCommand_assigns [of "''host2''" cluster "''ls''" "[''-l'']" envDown "''/etc/hosts''" "''/tmp''" 0]
          C9_AddCommand_assigns [of "''host9''" cluster "''ls''" "[''-l'']" envDown "''/etc/hosts''" "''/tmp''" 0]
          a x
    by blast
qed

subsection \<open>C10: duplicate identities\<close>

text \<open>
  C10. When several records carry the identity \<open>h\<close> and \<open>i\<close> is the first of them,
  \<open>AddCommand\<close> reports success and changes record \<open>i\<close> only (its command and its
  arguments), every other record, later duplicates included, staying as it was; and
  \<open>GetHostStdout\<close> returns the captured output of record \<open>i\<close>.
\<close>

theorem C10_first_match_only:
  assumes "i < length (HOSTS ds)" and "Name (HOSTS ds ! i) = h" and "\<forall>j<i. Name (HOSTS ds ! j) \<noteq> h"
  shows "AddCommand ds h c a = (ds\<lparr>HOSTS := (HOSTS ds)[i := (HOSTS ds ! i)\<lparr>cmd := c, args := a\<rparr>]\<rparr>, True) \<and>
         GetHostStdout ds h = Stdout (HOSTS ds ! i)"
  using first_match_AddCommand [OF assms] first_match_GetHostStdout [OF assms]
  by (simp add: AddCommand_def GetHostStdout_def)

theorem C10_first_match_only_witness:
  "AddCommand twins ''a'' ''ls'' [''-l''] =
     (\<lparr>HOSTS = [\<lparr>Name = ''a'', Stdout = [], cmd = ''ls'', args = [''-l''], CmdError = None\<rparr>,
                \<lparr>Name = ''b'', Stdout = [], cmd = [], args = [], CmdError = None\<rparr>,
                \<lparr>Name = ''a'', Stdout = [], cmd = [], args = [], CmdError = None\<rparr>],
       monitor = True, maxBatch = 50\<rparr>, True) \<and>
   GetHostStdout (twins\<lparr>HOSTS := (HOSTS twins)[0 := (HOSTS twins ! 0)\<lparr>Stdout := ''first''\<rparr>,
                                                2 := (HOSTS twins ! 2)\<lparr>Stdout := ''second''\<rparr>]\<rparr>) ''a'' = ''first''"
proof -
  let ?t2 = "twins\<lparr>HOSTS := (HOSTS twins)[0 := (HOSTS twins ! 0)\<lparr>Stdout := ''first''\<rparr>,
                                                2 := (HOSTS twins ! 2)\<lparr>Stdout := ''second''\<rparr>]\<rparr>"
  have a: "0 < length (HOSTS twins)" "Name (HOSTS twins ! 0) = ''a''" "\<forall>j<0::nat. Name (HOSTS twins ! j) \<noteq> ''a''"
    by (simp_all add: twins_def New_def buildHost_def)
  have b: "0 < length (HOSTS ?t2)" "Name (HOSTS ?t2 ! 0) = ''a''" "\<forall>j<0::nat. Name (HOSTS ?t2 ! j) \<noteq> ''a''"
    by (simp_all add: twins_def New_def buildHost_def)
  show ?thesis
    using C10_first_match_only [OF a, of "''ls''" "[''-l'']"] C10_first_match_only [OF b, of "''ls''" "[''-l'']"]
    by (simp add: twins_def New_def buildHost_def)
qed

end
